theory Spec2Isabelle
  imports Main "HOL-Library.Word" "HOL-Library.Finite_Map" "HOL-Library.Sublist"
begin

section \<open>The NGAP UE context list\<close>

text \<open>
  The class \<open>ngap_ue_context_list\<close> keeps one \<open>ngap_ue_context\<close> per device, keyed by the
  RAN-UE-ID, and two lookups into that map: from the UE index and from the AMF-UE-ID.
  The header that declares the identifier types (\<open>ngap_types.h\<close>) is not part of the
  sources at hand, so the identifier types are type parameters here
  (\<open>'u\<close> for \<open>ue_index_t\<close>, \<open>'r word\<close> for \<open>ran_ue_id_t\<close>, whose successor is computed on
  its unsigned representation, \<open>'a\<close> for \<open>amf_ue_id_t\<close>, \<open>'t\<close> for \<open>unique_timer\<close>),
  and the constants it declares are the fields of a parameter record.
\<close>

record (overloaded) ('u, 'r, 'a) ngap_types =
  ue_index_invalid :: 'u
  ran_ue_id_min :: "'r word"
  ran_ue_id_max :: "'r word"
  ran_ue_id_invalid :: "'r word"
  amf_ue_id_invalid :: 'a
  MAX_NOF_RAN_UES :: nat

record (overloaded) ('u, 'r, 'a) ngap_ue_ids =
  ue_index :: 'u
  ran_ue_id :: "'r word"
  amf_ue_id :: 'a

text \<open>
  The logger of a context is state as far as its prefix goes: \<open>set_prefix\<close> overwrites
  the identifiers printed in front of every line. The lines themselves are output and
  are not modelled.
\<close>

record (overloaded) ('u, 'r, 'a, 't) ngap_ue_context =
  ue_ids :: "('u, 'r, 'a) ngap_ue_ids"
  aggregate_maximum_bit_rate_dl :: "64 word"
  pdu_session_setup_timer :: 't
  release_requested :: bool
  release_scheduled :: bool
  last_pdu_session_resource_modify_request :: "8 word list"
  logger_prefix :: "('u, 'r, 'a) ngap_ue_ids"

record (overloaded) ('u, 'r, 'a, 't) ngap_ue_context_list =
  next_ran_ue_id :: "'r word"
  ue_index_to_ran_ue_id :: "('u, 'r word) fmap"
  amf_ue_id_to_ran_ue_id :: "('a, 'r word) fmap"
  ues :: "('r word, ('u, 'r, 'a, 't) ngap_ue_context) fmap"

text \<open>Every \<open>srsran_assert\<close> of the class is an error value of the model.\<close>

datatype ngap_error =
  Invalid_ue_index
  | Invalid_ran_ue_id
  | Invalid_amf_ue_id
  | RAN_UE_ID_not_found
  | UE_context_not_found

text \<open>
  \<open>std::unordered_map::emplace\<close> inserts only when the key is absent; an existing
  entry is kept as it is.
\<close>

definition emplace :: "'k \<Rightarrow> 'v \<Rightarrow> ('k, 'v) fmap \<Rightarrow> ('k, 'v) fmap" where
  "emplace k v m = (if k |\<in>| fmdom m then m else fmupd k v m)"

definition erase :: "'k \<Rightarrow> ('k, 'v) fmap \<Rightarrow> ('k, 'v) fmap" where
  "erase k m = fmdrop k m"

text \<open>The constructor of \<open>ngap_ue_context\<close>: the identifiers start with an invalid AMF-UE-ID.\<close>

definition new_ngap_ue_context ::
  "('u, 'r::len, 'a) ngap_types \<Rightarrow> 'u \<Rightarrow> 'r word \<Rightarrow> 't \<Rightarrow> ('u, 'r, 'a, 't) ngap_ue_context" where
  "new_ngap_ue_context P ue_idx ran_id timer =
     \<lparr>ue_ids = \<lparr>ue_index = ue_idx, ran_ue_id = ran_id, amf_ue_id = amf_ue_id_invalid P\<rparr>,
      aggregate_maximum_bit_rate_dl = 0,
      pdu_session_setup_timer = timer,
      release_requested = False,
      release_scheduled = False,
      last_pdu_session_resource_modify_request = [],
      logger_prefix = \<lparr>ue_index = ue_idx, ran_ue_id = ran_id, amf_ue_id = amf_ue_id_invalid P\<rparr>\<rparr>"

definition empty_list :: "('u, 'r::len, 'a) ngap_types \<Rightarrow> ('u, 'r, 'a, 't) ngap_ue_context_list" where
  "empty_list P =
     \<lparr>next_ran_ue_id = ran_ue_id_min P,
      ue_index_to_ran_ue_id = fmempty,
      amf_ue_id_to_ran_ue_id = fmempty,
      ues = fmempty\<rparr>"

subsection \<open>Lookups\<close>

definition contains_ran_ue_id :: "('u, 'r::len, 'a, 't) ngap_ue_context_list \<Rightarrow> 'r word \<Rightarrow> bool" where
  "contains_ran_ue_id s r = (r |\<in>| fmdom (ues s))"

definition contains_ue_index :: "('u, 'r::len, 'a, 't) ngap_ue_context_list \<Rightarrow> 'u \<Rightarrow> bool" where
  "contains_ue_index s u =
     (case fmlookup (ue_index_to_ran_ue_id s) u of
        None \<Rightarrow> False
      | Some r \<Rightarrow> if r |\<in>| fmdom (ues s) then True else False)"

definition contains_amf_ue_id :: "('u, 'r::len, 'a, 't) ngap_ue_context_list \<Rightarrow> 'a \<Rightarrow> bool" where
  "contains_amf_ue_id s a =
     (case fmlookup (amf_ue_id_to_ran_ue_id s) a of
        None \<Rightarrow> False
      | Some r \<Rightarrow> if r |\<in>| fmdom (ues s) then True else False)"

text \<open>The three \<open>operator[]\<close>: a failed assertion is an error.\<close>

definition at_ran_ue_id ::
  "('u, 'r::len, 'a, 't) ngap_ue_context_list \<Rightarrow> 'r word \<Rightarrow> ngap_error + ('u, 'r, 'a, 't) ngap_ue_context" where
  "at_ran_ue_id s r =
     (case fmlookup (ues s) r of None \<Rightarrow> Inl UE_context_not_found | Some c \<Rightarrow> Inr c)"

definition at_ue_index ::
  "('u, 'r::len, 'a, 't) ngap_ue_context_list \<Rightarrow> 'u \<Rightarrow> ngap_error + ('u, 'r, 'a, 't) ngap_ue_context" where
  "at_ue_index s u =
     (case fmlookup (ue_index_to_ran_ue_id s) u of
        None \<Rightarrow> Inl RAN_UE_ID_not_found
      | Some r \<Rightarrow> at_ran_ue_id s r)"

definition at_amf_ue_id ::
  "('u, 'r::len, 'a, 't) ngap_ue_context_list \<Rightarrow> 'a \<Rightarrow> ngap_error + ('u, 'r, 'a, 't) ngap_ue_context" where
  "at_amf_ue_id s a =
     (case fmlookup (amf_ue_id_to_ran_ue_id s) a of
        None \<Rightarrow> Inl RAN_UE_ID_not_found
      | Some r \<Rightarrow> at_ran_ue_id s r)"

definition find_ue ::
  "('u, 'r::len, 'a, 't) ngap_ue_context_list \<Rightarrow> 'r word \<Rightarrow> ('u, 'r, 'a, 't) ngap_ue_context option" where
  "find_ue s r = fmlookup (ues s) r"

definition size_ues :: "('u, 'r::len, 'a, 't) ngap_ue_context_list \<Rightarrow> nat" where
  "size_ues s = fcard (fmdom (ues s))"

subsection \<open>Updates\<close>

definition add_ue ::
  "('u, 'r::len, 'a) ngap_types \<Rightarrow> 'u \<Rightarrow> 'r word \<Rightarrow> 't \<Rightarrow> ('u, 'r, 'a, 't) ngap_ue_context_list
     \<Rightarrow> ngap_error + ('u, 'r, 'a, 't) ngap_ue_context_list" where
  "add_ue P ue_idx ran_id timer s =
     (if ue_idx = ue_index_invalid P then Inl Invalid_ue_index
      else if ran_id = ran_ue_id_invalid P then Inl Invalid_ran_ue_id
      else Inr (s\<lparr>ues := emplace ran_id (new_ngap_ue_context P ue_idx ran_id timer) (ues s),
                 ue_index_to_ran_ue_id := emplace ue_idx ran_id (ue_index_to_ran_ue_id s)\<rparr>))"

definition update_amf_ue_id ::
  "('u, 'r::len, 'a) ngap_types \<Rightarrow> 'r word \<Rightarrow> 'a \<Rightarrow> ('u, 'r, 'a, 't) ngap_ue_context_list
     \<Rightarrow> ngap_error + ('u, 'r, 'a, 't) ngap_ue_context_list" where
  "update_amf_ue_id P ran_id amf_id s =
     (if amf_id = amf_ue_id_invalid P then Inl Invalid_amf_ue_id
      else if ran_id = ran_ue_id_invalid P then Inl Invalid_ran_ue_id
      else case fmlookup (ues s) ran_id of
        None \<Rightarrow> Inl UE_context_not_found
      | Some ue \<Rightarrow>
          if amf_ue_id (ue_ids ue) = amf_id then Inr s
          else
            let new_ids = (ue_ids ue)\<lparr>amf_ue_id := amf_id\<rparr>;
                ue' = ue\<lparr>ue_ids := new_ids,
                         logger_prefix := \<lparr>ue_index = ue_index new_ids, ran_ue_id = ran_id,
                                           amf_ue_id = amf_id\<rparr>\<rparr>
            in if amf_ue_id (ue_ids ue) = amf_ue_id_invalid P then
                 Inr (s\<lparr>ues := fmupd ran_id ue' (ues s),
                        amf_ue_id_to_ran_ue_id := emplace amf_id ran_id (amf_ue_id_to_ran_ue_id s)\<rparr>)
               else
                 Inr (s\<lparr>ues := fmupd ran_id ue' (ues s),
                        amf_ue_id_to_ran_ue_id :=
                          erase (amf_ue_id (ue_ids ue))
                            (emplace amf_id ran_id (amf_ue_id_to_ran_ue_id s))\<rparr>))"

definition update_ue_index ::
  "('u, 'r::len, 'a) ngap_types \<Rightarrow> 'u \<Rightarrow> 'u \<Rightarrow> ('u, 'r, 'a, 't) ngap_ue_context_list
     \<Rightarrow> ngap_error + ('u, 'r, 'a, 't) ngap_ue_context_list" where
  "update_ue_index P new_ue_index old_ue_index s =
     (if new_ue_index = ue_index_invalid P then Inl Invalid_ue_index
      else if old_ue_index = ue_index_invalid P then Inl Invalid_ue_index
      else case fmlookup (ue_index_to_ran_ue_id s) old_ue_index of
        None \<Rightarrow> Inl RAN_UE_ID_not_found
      | Some r \<Rightarrow>
          (case fmlookup (ues s) r of
             None \<Rightarrow> Inl UE_context_not_found
           | Some ue \<Rightarrow>
               let new_ids = (ue_ids ue)\<lparr>ue_index := new_ue_index\<rparr>;
                   ue' = ue\<lparr>ue_ids := new_ids,
                            logger_prefix := \<lparr>ue_index = new_ue_index, ran_ue_id = r,
                                              amf_ue_id = amf_ue_id new_ids\<rparr>\<rparr>
               in Inr (s\<lparr>ues := fmupd r ue' (ues s),
                          ue_index_to_ran_ue_id :=
                            erase old_ue_index (emplace new_ue_index r (ue_index_to_ran_ue_id s))\<rparr>)))"

definition remove_ue_context ::
  "('u, 'r::len, 'a) ngap_types \<Rightarrow> 'u \<Rightarrow> ('u, 'r, 'a, 't) ngap_ue_context_list
     \<Rightarrow> ngap_error + ('u, 'r, 'a, 't) ngap_ue_context_list" where
  "remove_ue_context P ue_idx s =
     (if ue_idx = ue_index_invalid P then Inl Invalid_ue_index
      else case fmlookup (ue_index_to_ran_ue_id s) ue_idx of
        None \<Rightarrow> Inr s
      | Some r \<Rightarrow>
          let s1 = s\<lparr>ue_index_to_ran_ue_id := erase ue_idx (ue_index_to_ran_ue_id s)\<rparr>
          in (case fmlookup (ues s1) r of
                None \<Rightarrow> Inr s1
              | Some ue \<Rightarrow>
                  let s2 = (if amf_ue_id (ue_ids ue) \<noteq> amf_ue_id_invalid P
                            then s1\<lparr>amf_ue_id_to_ran_ue_id :=
                                      erase (amf_ue_id (ue_ids ue)) (amf_ue_id_to_ran_ue_id s1)\<rparr>
                            else s1)
                  in Inr (s2\<lparr>ues := erase r (ues s2)\<rparr>)))"

subsection \<open>Allocation of RAN-UE-IDs\<close>

definition increase_next_ran_ue_id ::
  "('u, 'r::len, 'a) ngap_types \<Rightarrow> ('u, 'r, 'a, 't) ngap_ue_context_list \<Rightarrow> ('u, 'r, 'a, 't) ngap_ue_context_list" where
  "increase_next_ran_ue_id P s =
     (if next_ran_ue_id s = ran_ue_id_max P
      then s\<lparr>next_ran_ue_id := ran_ue_id_min P\<rparr>
      else s\<lparr>next_ran_ue_id := next_ran_ue_id s + 1\<rparr>)"

text \<open>
  The \<open>std::find_if\<close> of \<open>allocate_ran_ue_id\<close>: is there an entry of
  \<open>ue_index_to_ran_ue_id\<close> whose value is the given RAN-UE-ID?
\<close>

definition ran_ue_id_in_use :: "('u, 'r::len, 'a, 't) ngap_ue_context_list \<Rightarrow> 'r word \<Rightarrow> bool" where
  "ran_ue_id_in_use s r =
     (\<exists>u |\<in>| fmdom (ue_index_to_ran_ue_id s). fmlookup (ue_index_to_ran_ue_id s) u = Some r)"

text \<open>
  The \<open>while (true)\<close> loop of \<open>allocate_ran_ue_id\<close>. It has no bound of its own, so it is
  a partial function: \<open>None\<close> stands for a loop that never returns.
\<close>

partial_function (option) find_unused_ran_ue_id ::
  "('u, 'r::len, 'a) ngap_types \<Rightarrow> ('u, 'r, 'a, 't) ngap_ue_context_list
     \<Rightarrow> ('r word \<times> ('u, 'r, 'a, 't) ngap_ue_context_list) option" where
  "find_unused_ran_ue_id P s =
     (if ran_ue_id_in_use s (next_ran_ue_id s)
      then find_unused_ran_ue_id P (increase_next_ran_ue_id P s)
      else Some (next_ran_ue_id s, increase_next_ran_ue_id P s))"

definition allocate_ran_ue_id ::
  "('u, 'r::len, 'a) ngap_types \<Rightarrow> ('u, 'r, 'a, 't) ngap_ue_context_list
     \<Rightarrow> ('r word \<times> ('u, 'r, 'a, 't) ngap_ue_context_list) option" where
  "allocate_ran_ue_id P s =
     (if fcard (fmdom (ue_index_to_ran_ue_id s)) = MAX_NOF_RAN_UES P
      then Some (ran_ue_id_invalid P, s)
      else find_unused_ran_ue_id P s)"

subsection \<open>Three-way consistency\<close>

text \<open>
  The store is consistent when the three ways to reach a context agree: every stored
  context is found under its own RAN-UE-ID, under its UE index and (once it has one)
  under its AMF-UE-ID, and every key of the two lookups leads to a context that carries
  that key. The invalid AMF-UE-ID is never a key.
\<close>

definition three_way_consistent ::
  "('u, 'r::len, 'a) ngap_types \<Rightarrow> ('u, 'r, 'a, 't) ngap_ue_context_list \<Rightarrow> bool" where
  "three_way_consistent P s \<longleftrightarrow>
     (\<forall>r |\<in>| fmdom (ues s).
        case fmlookup (ues s) r of
          None \<Rightarrow> False
        | Some ue \<Rightarrow>
            ran_ue_id (ue_ids ue) = r \<and>
            at_ue_index s (ue_index (ue_ids ue)) = Inr ue \<and>
            (amf_ue_id (ue_ids ue) \<noteq> amf_ue_id_invalid P \<longrightarrow>
               at_amf_ue_id s (amf_ue_id (ue_ids ue)) = Inr ue)) \<and>
     (\<forall>u |\<in>| fmdom (ue_index_to_ran_ue_id s).
        case at_ue_index s u of
          Inl e \<Rightarrow> False
        | Inr ue \<Rightarrow> ue_index (ue_ids ue) = u) \<and>
     (\<forall>a |\<in>| fmdom (amf_ue_id_to_ran_ue_id s).
        a \<noteq> amf_ue_id_invalid P \<and>
        (case at_amf_ue_id s a of
           Inl e \<Rightarrow> False
         | Inr ue \<Rightarrow> amf_ue_id (ue_ids ue) = a))"


subsection \<open>Example stores\<close>

text \<open>
  Concrete parameters and stores on which the statements below are run. \<open>example_types\<close>
  has the values of the 3GPP identifier ranges; \<open>small_types\<close> shrinks the RAN-UE-ID
  range to \<open>0..2\<close> and the capacity to three devices.
\<close>

definition example_types :: "(64 word, 64, 64 word) ngap_types" where
  "example_types =
     \<lparr>ue_index_invalid = 0xFFFF, ran_ue_id_min = 0, ran_ue_id_max = 0xFFFFFFFF,
      ran_ue_id_invalid = 0x1FFFFFFFF, amf_ue_id_invalid = 0x1FFFFFFFFFF,
      MAX_NOF_RAN_UES = 4294967296\<rparr>"

definition small_types :: "(64 word, 64, 64 word) ngap_types" where
  "small_types = example_types\<lparr>ran_ue_id_max := 2, MAX_NOF_RAN_UES := 3\<rparr>"

text \<open>Two devices: index 0 with RAN-UE-ID 0 and AMF-UE-ID 7, index 1 with RAN-UE-ID 1.\<close>

definition two_ues :: "(64 word, 64, 64 word, unit) ngap_ue_context_list" where
  "two_ues =
     projr (update_amf_ue_id example_types 0 7
       (projr (add_ue example_types 1 1 ()
         (projr (add_ue example_types 0 0 () (empty_list example_types))))))"

text \<open>Two devices holding the RAN-UE-IDs 2 and 0, with the counter at the maximum.\<close>

definition wrapping_ues :: "(64 word, 64, 64 word, unit) ngap_ue_context_list" where
  "wrapping_ues =
     (projr (add_ue small_types 1 0 ()
        (projr (add_ue small_types 0 2 () (empty_list small_types)))))\<lparr>next_ran_ue_id := 2\<rparr>"

text \<open>Three devices, as many as \<open>small_types\<close> admits.\<close>

definition full_ues :: "(64 word, 64, 64 word, unit) ngap_ue_context_list" where
  "full_ues =
     projr (add_ue small_types 2 2 ()
       (projr (add_ue small_types 1 1 ()
         (projr (add_ue small_types 0 0 () (empty_list small_types))))))"




section \<open>The downlink scheduler of a device in contention resolution\<close>

text \<open>
  The scheduler itself (the slot handler, the fallback scheduling of a device that holds
  a temporary address, the logical channel multiplexer) is not part of the sources at
  hand; only its test is. Every definition of this section is therefore written from the
  specification, for one device, and says so.
\<close>

text \<open>Modelled from the spec: the states of the contention resolution state machine
  (section 4.2); the scheduler's own state type is missing.\<close>

datatype phase = DETECTED | AWAITING_RESOLUTION | RESOLVED | RELEASED

text \<open>Modelled from the spec: the type tag of a control element (section 3); the
  scheduler's list of control element identifiers is missing.\<close>

datatype ce_type = Identity_confirmation | Other_control_element nat

text \<open>Modelled from the spec: the identity used for addressing an assignment, temporary
  or stable (section 3); the DCI formats of the scheduler are missing.\<close>

datatype addressing = Temporary_address | Stable_address

text \<open>Modelled from the spec: a pending control element, a small mandatory payload with
  a type tag (section 3, glossary); the scheduler's queue entry is missing.\<close>

record control_element =
  ce_tag :: ce_type
  ce_bytes :: nat

text \<open>Modelled from the spec: a logical channel with its priority, its segmentation
  capability and its buffer occupancy counter (section 3, glossary); the scheduler's
  logical channel manager is missing.\<close>

record logical_channel =
  lcid :: nat
  priority :: nat
  segmentable :: bool
  pending_bytes :: nat

text \<open>Modelled from the spec: the device context, with the admission phase, the queue of
  pending control elements and the per-channel counters (section 3); the scheduler's UE
  class is missing.\<close>

record device_context =
  phase :: phase
  pending_ces :: "control_element list"
  channels :: "logical_channel list"

text \<open>Modelled from the spec: the inbound events of section 6 that concern one device,
  and the identity confirmation of the upper layer; the scheduler's event handlers are
  missing.\<close>

datatype event =
  Control_element_request control_element
  | Buffer_state_update nat nat
  | Identity_confirmed
  | Release_request

text \<open>Modelled from the spec: one entry of the transport block content description, a
  control element or a logical channel with its byte count (section 3); the scheduler's
  result types are missing.\<close>

datatype sched_channel = CE ce_type | LC nat

record tb_entry =
  content :: sched_channel
  sched_bytes :: nat

text \<open>Modelled from the spec: the errors of section 7 that one device's allocation can
  meet; the scheduler's own error handling is missing.\<close>

datatype sched_error = InsufficientBudget | Deferred

text \<open>Modelled from the spec: the assignment of one device in one slot, with the
  identity used for addressing and the single transport block (section 3, glossary); the
  scheduler's result types are missing.\<close>

record dl_allocation =
  addressing :: addressing
  tb :: "tb_entry list"

text \<open>Modelled from the spec: what the policy and the grid give the device in one slot,
  next to the events drained at the start of the slot (sections 4.3 and 4.5): the byte
  budget the policy grants, or none when the device is not selected, and the capacity
  remaining in the grid, in bytes. The policy and the grid are missing.\<close>

record slot_input =
  events :: "event list"
  granted :: "nat option"
  capacity :: nat

text \<open>Modelled from the spec: a buffer state update sets the counter of its channel
  (section 6); the scheduler's handler is missing.\<close>

fun set_pending :: "nat \<Rightarrow> nat \<Rightarrow> logical_channel list \<Rightarrow> logical_channel list" where
  "set_pending l n [] = []"
| "set_pending l n (c # cs) =
     (if lcid c = l then c\<lparr>pending_bytes := n\<rparr> # cs else c # set_pending l n cs)"

text \<open>Modelled from the spec: the transitions of section 4.2. Enqueuing an identity
  confirmation takes a detected device to \<open>AWAITING_RESOLUTION\<close>; only the explicit
  confirmation of the upper layer takes it to \<open>RESOLVED\<close>; a release request takes any
  phase to \<open>RELEASED\<close>. The scheduler's state machine is missing.\<close>

fun advance :: "event \<Rightarrow> device_context \<Rightarrow> device_context" where
  "advance (Control_element_request e) d =
     d\<lparr>pending_ces := pending_ces d @ [e],
       phase := (if phase d = DETECTED \<and> ce_tag e = Identity_confirmation
                 then AWAITING_RESOLUTION else phase d)\<rparr>"
| "advance (Buffer_state_update l n) d = d\<lparr>channels := set_pending l n (channels d)\<rparr>"
| "advance Identity_confirmed d =
     (if phase d = AWAITING_RESOLUTION then d\<lparr>phase := RESOLVED\<rparr> else d)"
| "advance Release_request d = d\<lparr>phase := RELEASED\<rparr>"

text \<open>Modelled from the spec: the pending events are drained into the context at the
  start of the slot (sections 2 and 4.5); the scheduler's event manager is missing.\<close>

definition drain :: "event list \<Rightarrow> device_context \<Rightarrow> device_context" where
  "drain es d = fold advance es d"

text \<open>Modelled from the spec: the identity used for addressing follows the phase, the
  temporary address until resolution completes and the stable one from then on (sections
  3 and 4.2); a released device is not addressed. The scheduler's choice of the DCI
  format is missing.\<close>

fun addressing_of :: "phase \<Rightarrow> addressing option" where
  "addressing_of DETECTED = Some Temporary_address"
| "addressing_of AWAITING_RESOLUTION = Some Temporary_address"
| "addressing_of RESOLVED = Some Stable_address"
| "addressing_of RELEASED = None"

text \<open>Modelled from the spec: the control element part of \<open>pack\<close> (section 4.4). The
  control elements come first and are mandatory: when one does not fit, there is no
  plan. The result is the entries and the budget left. The multiplexer is missing.\<close>

fun pack_ces :: "control_element list \<Rightarrow> nat \<Rightarrow> (tb_entry list \<times> nat) option" where
  "pack_ces [] b = Some ([], b)"
| "pack_ces (e # es) b =
     (if b < ce_bytes e then None
      else case pack_ces es (b - ce_bytes e) of
        None \<Rightarrow> None
      | Some (p, r) \<Rightarrow> Some (\<lparr>content = CE (ce_tag e), sched_bytes = ce_bytes e\<rparr> # p, r))"

text \<open>Modelled from the spec: the logical channel part of \<open>pack\<close> (section 4.4), over the
  channels in priority order: each channel is consumed until the budget or its pending
  bytes are exhausted. The multiplexer is missing.\<close>

fun pack_lcs :: "logical_channel list \<Rightarrow> nat \<Rightarrow> tb_entry list" where
  "pack_lcs [] b = []"
| "pack_lcs (c # cs) b =
     (if b = 0 then []
      else if pending_bytes c = 0 then pack_lcs cs b
      else \<lparr>content = LC (lcid c), sched_bytes = min (pending_bytes c) b\<rparr>
             # pack_lcs cs (b - min (pending_bytes c) b))"

text \<open>Modelled from the spec: \<open>pack(device_context, byte_budget)\<close> of section 4.4, control
  elements first, then the logical channels by configured priority; it fails with
  \<open>InsufficientBudget\<close> when a control element cannot fit. The multiplexer is
  missing.\<close>

definition pack :: "device_context \<Rightarrow> nat \<Rightarrow> sched_error + tb_entry list" where
  "pack d byte_budget =
     (case pack_ces (pending_ces d) byte_budget of
        None \<Rightarrow> Inl InsufficientBudget
      | Some (p, r) \<Rightarrow> Inr (p @ pack_lcs (sort_key priority (channels d)) r))"

text \<open>Modelled from the spec: the bytes that the channels need so that no channel without
  segmentation support is truncated (section 4.2, third rule): in priority order, all
  bytes up to and including the last such channel that has pending bytes. The
  scheduler's size computation is missing.\<close>

fun unsegmented_bytes :: "logical_channel list \<Rightarrow> nat" where
  "unsegmented_bytes [] = 0"
| "unsegmented_bytes (c # cs) =
     (if 0 < unsegmented_bytes cs \<or> (\<not> segmentable c \<and> 0 < pending_bytes c)
      then pending_bytes c + unsegmented_bytes cs else 0)"

text \<open>Modelled from the spec: the smallest transport block that holds the mandatory
  control elements and the full payload of the channels without segmentation support
  (sections 4.2 and 4.4). The scheduler's size computation is missing.\<close>

definition required_bytes :: "device_context \<Rightarrow> nat" where
  "required_bytes d =
     sum_list (map ce_bytes (pending_ces d)) + unsegmented_bytes (sort_key priority (channels d))"

text \<open>Modelled from the spec: the allocation of one device (sections 4.2 to 4.4). The
  budget the policy grants is grown to the required bytes; when the grid capacity does not
  allow it, the device is deferred to the next slot; otherwise the multiplexer fills the
  transport block. The scheduler's allocation is missing.\<close>

definition allocate_device :: "nat \<Rightarrow> nat \<Rightarrow> device_context \<Rightarrow> sched_error + tb_entry list" where
  "allocate_device byte_budget cap d =
     (let b = max byte_budget (required_bytes d)
      in if cap < b then Inl Deferred else pack d b)"

text \<open>Modelled from the spec: the bytes of a plan that belong to one logical
  channel; the scheduler's buffer bookkeeping is missing.\<close>

fun scheduled_for :: "nat \<Rightarrow> tb_entry list \<Rightarrow> nat" where
  "scheduled_for l [] = 0"
| "scheduled_for l (x # xs) =
     (if content x = LC l then sched_bytes x + scheduled_for l xs else scheduled_for l xs)"

text \<open>Modelled from the spec: what was multiplexed is consumed (section 4.4): the control
  elements leave the queue and the counters go down by the bytes scheduled. The
  scheduler's buffer bookkeeping is missing.\<close>

definition consume :: "tb_entry list \<Rightarrow> device_context \<Rightarrow> device_context" where
  "consume plan d =
     d\<lparr>pending_ces := [],
       channels := map (\<lambda>c. c\<lparr>pending_bytes := pending_bytes c - scheduled_for (lcid c) plan\<rparr>)
                     (channels d)\<rparr>"

text \<open>Modelled from the spec: one slot of the orchestrator for one device (section 4.5):
  drain the events and advance the state machine, allocate, multiplex, publish. A device
  that is released, not selected or deferred, or that has nothing to send, gets no
  allocation in the slot. The slot handler is missing.\<close>

definition run_slot :: "slot_input \<Rightarrow> device_context \<Rightarrow> device_context \<times> dl_allocation option" where
  "run_slot i d =
     (let d1 = drain (events i) d
      in case addressing_of (phase d1) of
           None \<Rightarrow> (d1, None)
         | Some a \<Rightarrow>
             (case granted i of
                None \<Rightarrow> (d1, None)
              | Some b \<Rightarrow>
                  (case allocate_device b (capacity i) d1 of
                     Inl e \<Rightarrow> (d1, None)
                   | Inr plan \<Rightarrow>
                       if plan = [] then (d1, None)
                       else (consume plan d1, Some \<lparr>addressing = a, tb = plan\<rparr>))))"

text \<open>Modelled from the spec: the slots run one after the other, and only the device
  context is carried over (section 4.5); the result is the allocation of each slot. The
  slot handler is missing.\<close>

fun run_slots :: "slot_input list \<Rightarrow> device_context \<Rightarrow> dl_allocation option list" where
  "run_slots [] d = []"
| "run_slots (i # is) d = snd (run_slot i d) # run_slots is (fst (run_slot i d))"

text \<open>A device whose identity the upper layer has not confirmed.\<close>

definition unconfirmed :: "device_context \<Rightarrow> bool" where
  "unconfirmed d \<longleftrightarrow> phase d = DETECTED \<or> phase d = AWAITING_RESOLUTION \<or> phase d = RELEASED"

subsection \<open>Example scenario\<close>

text \<open>
  The scenario of the scheduler's test: a device that was detected, with the three
  channels SRB0 (no segmentation), SRB1 and one data bearer. In the first slot the identity
  confirmation (seven bytes with its header) and a message of 128 bytes on SRB0 arrive
  and the policy grants 20 bytes; in the second slot 128 bytes arrive on SRB1 and the
  policy grants 50 bytes.
\<close>

definition detected_ue :: device_context where
  "detected_ue =
     \<lparr>phase = DETECTED, pending_ces = [],
      channels =
        [\<lparr>lcid = 4, priority = 5, segmentable = True, pending_bytes = 0\<rparr>,
         \<lparr>lcid = 1, priority = 1, segmentable = True, pending_bytes = 0\<rparr>,
         \<lparr>lcid = 0, priority = 0, segmentable = False, pending_bytes = 0\<rparr>]\<rparr>"

definition msg4_slot :: slot_input where
  "msg4_slot =
     \<lparr>events = [Control_element_request \<lparr>ce_tag = Identity_confirmation, ce_bytes = 7\<rparr>,
                Buffer_state_update 0 128],
      granted = Some 20, capacity = 1000\<rparr>"

definition srb1_slot :: slot_input where
  "srb1_slot = \<lparr>events = [Buffer_state_update 1 128], granted = Some 50, capacity = 1000\<rparr>"

text \<open>
  The same first slot with the message on SRB1, which can be segmented, once with a grant
  of 20 bytes and once with a grant of seven bytes, the size of the control element.
\<close>

definition srb1_msg4_slot :: slot_input where
  "srb1_msg4_slot =
     \<lparr>events = [Control_element_request \<lparr>ce_tag = Identity_confirmation, ce_bytes = 7\<rparr>,
                Buffer_state_update 1 128],
      granted = Some 20, capacity = 1000\<rparr>"

definition tight_slot :: slot_input where
  "tight_slot =
     \<lparr>events = [Control_element_request \<lparr>ce_tag = Identity_confirmation, ce_bytes = 7\<rparr>,
                Buffer_state_update 1 128],
      granted = Some 7, capacity = 1000\<rparr>"


section \<open>Properties of the NGAP UE context list\<close>

subsection \<open>Auxiliary facts\<close>

lemma at_ue_index_Inr:
  "at_ue_index s u = Inr ue \<longleftrightarrow>
     (\<exists>r. fmlookup (ue_index_to_ran_ue_id s) u = Some r \<and> fmlookup (ues s) r = Some ue)"
  by (simp add: at_ue_index_def at_ran_ue_id_def split: option.splits)

lemma at_amf_ue_id_Inr:
  "at_amf_ue_id s a = Inr ue \<longleftrightarrow>
     (\<exists>r. fmlookup (amf_ue_id_to_ran_ue_id s) a = Some r \<and> fmlookup (ues s) r = Some ue)"
  by (simp add: at_amf_ue_id_def at_ran_ue_id_def split: option.splits)

lemma fBall_fmdom:
  "(\<forall>k |\<in>| fmdom m. Q k) \<longleftrightarrow> (\<forall>k v. fmlookup m k = Some v \<longrightarrow> Q k)"
  by (metis fmdomE fmdomI)

lemma sum_case_Inr_iff:
  "(case x of Inl e \<Rightarrow> False | Inr y \<Rightarrow> Q y) \<longleftrightarrow> (\<exists>y. x = Inr y \<and> Q y)"
  by (cases x) simp_all

lemma option_case_Some_iff:
  "(case x of None \<Rightarrow> False | Some y \<Rightarrow> Q y) \<longleftrightarrow> (\<exists>y. x = Some y \<and> Q y)"
  by (cases x) simp_all

lemma three_way_consistent_iff:
  "three_way_consistent P s \<longleftrightarrow>
     (\<forall>r ue. fmlookup (ues s) r = Some ue \<longrightarrow>
        ran_ue_id (ue_ids ue) = r \<and>
        fmlookup (ue_index_to_ran_ue_id s) (ue_index (ue_ids ue)) = Some r \<and>
        (amf_ue_id (ue_ids ue) \<noteq> amf_ue_id_invalid P \<longrightarrow>
           fmlookup (amf_ue_id_to_ran_ue_id s) (amf_ue_id (ue_ids ue)) = Some r)) \<and>
     (\<forall>u r. fmlookup (ue_index_to_ran_ue_id s) u = Some r \<longrightarrow>
        (\<exists>ue. fmlookup (ues s) r = Some ue \<and> ue_index (ue_ids ue) = u)) \<and>
     (\<forall>a r. fmlookup (amf_ue_id_to_ran_ue_id s) a = Some r \<longrightarrow>
        a \<noteq> amf_ue_id_invalid P \<and>
        (\<exists>ue. fmlookup (ues s) r = Some ue \<and> amf_ue_id (ue_ids ue) = a))"
  (is "?L \<longleftrightarrow> ?A \<and> ?B \<and> ?C")
proof
  assume L: ?L
  from L have A0: "\<And>r ue. fmlookup (ues s) r = Some ue \<Longrightarrow>
        ran_ue_id (ue_ids ue) = r \<and>
        at_ue_index s (ue_index (ue_ids ue)) = Inr ue \<and>
        (amf_ue_id (ue_ids ue) \<noteq> amf_ue_id_invalid P \<longrightarrow>
           at_amf_ue_id s (amf_ue_id (ue_ids ue)) = Inr ue)"
    unfolding three_way_consistent_def fBall_fmdom by fastforce
  have A: ?A
  proof (intro allI impI)
    fix r ue assume h: "fmlookup (ues s) r = Some ue"
    note a = A0 [OF h]
    from a obtain r' where r': "fmlookup (ue_index_to_ran_ue_id s) (ue_index (ue_ids ue)) = Some r'"
      "fmlookup (ues s) r' = Some ue" unfolding at_ue_index_Inr by blast
    from A0 [OF r'(2)] a have "r' = r" by simp
    moreover have "fmlookup (amf_ue_id_to_ran_ue_id s) (amf_ue_id (ue_ids ue)) = Some r"
      if "amf_ue_id (ue_ids ue) \<noteq> amf_ue_id_invalid P"
    proof -
      from a that obtain r'' where r'': "fmlookup (amf_ue_id_to_ran_ue_id s) (amf_ue_id (ue_ids ue)) = Some r''"
        "fmlookup (ues s) r'' = Some ue" unfolding at_amf_ue_id_Inr by blast
      from A0 [OF r''(2)] a have "r'' = r" by simp
      with r'' show ?thesis by simp
    qed
    ultimately show "ran_ue_id (ue_ids ue) = r \<and>
        fmlookup (ue_index_to_ran_ue_id s) (ue_index (ue_ids ue)) = Some r \<and>
        (amf_ue_id (ue_ids ue) \<noteq> amf_ue_id_invalid P \<longrightarrow>
           fmlookup (amf_ue_id_to_ran_ue_id s) (amf_ue_id (ue_ids ue)) = Some r)"
      using a r' by simp
  qed
  from L have B: ?B
    unfolding three_way_consistent_def fBall_fmdom sum_case_Inr_iff at_ue_index_Inr by fastforce
  from L have C: ?C
    unfolding three_way_consistent_def fBall_fmdom sum_case_Inr_iff at_amf_ue_id_Inr by fastforce
  from A B C show "?A \<and> ?B \<and> ?C" by blast
next
  assume R: "?A \<and> ?B \<and> ?C"
  then have A: ?A and B: ?B and C: ?C by blast+
  have 1: "\<forall>r |\<in>| fmdom (ues s).
        case fmlookup (ues s) r of
          None \<Rightarrow> False
        | Some ue \<Rightarrow>
            ran_ue_id (ue_ids ue) = r \<and>
            at_ue_index s (ue_index (ue_ids ue)) = Inr ue \<and>
            (amf_ue_id (ue_ids ue) \<noteq> amf_ue_id_invalid P \<longrightarrow>
               at_amf_ue_id s (amf_ue_id (ue_ids ue)) = Inr ue)"
    unfolding fBall_fmdom option_case_Some_iff at_ue_index_Inr at_amf_ue_id_Inr
    using A by fastforce
  have 2: "\<forall>u |\<in>| fmdom (ue_index_to_ran_ue_id s).
        case at_ue_index s u of
          Inl e \<Rightarrow> False
        | Inr ue \<Rightarrow> ue_index (ue_ids ue) = u"
    unfolding fBall_fmdom sum_case_Inr_iff at_ue_index_Inr
    using B by fastforce
  have 3: "\<forall>a |\<in>| fmdom (amf_ue_id_to_ran_ue_id s).
        a \<noteq> amf_ue_id_invalid P \<and>
        (case at_amf_ue_id s a of
           Inl e \<Rightarrow> False
         | Inr ue \<Rightarrow> amf_ue_id (ue_ids ue) = a)"
    unfolding fBall_fmdom sum_case_Inr_iff at_amf_ue_id_Inr
    using C by fastforce
  from 1 2 3 show ?L unfolding three_way_consistent_def by blast
qed

lemma fmlookup_emplace:
  "fmlookup (emplace k v m) k' =
     (if k' = k then (case fmlookup m k of None \<Rightarrow> Some v | Some w \<Rightarrow> Some w) else fmlookup m k')"
  by (auto simp: emplace_def fmlookup_dom_iff split: option.splits)

lemma fmlookup_erase:
  "fmlookup (erase k m) k' = (if k' = k then None else fmlookup m k')"
  by (simp add: erase_def)

lemma update_amf_ue_id_Inr:
  assumes "update_amf_ue_id P r a s = Inr s'"
  obtains ue where "fmlookup (ues s) r = Some ue" "a \<noteq> amf_ue_id_invalid P" "r \<noteq> ran_ue_id_invalid P"
    "amf_ue_id (ue_ids ue) = a \<Longrightarrow> s' = s"
    "amf_ue_id (ue_ids ue) \<noteq> a \<Longrightarrow> 
       s' = s\<lparr>ues := fmupd r (ue\<lparr>ue_ids := (ue_ids ue)\<lparr>amf_ue_id := a\<rparr>,
        logger_prefix := \<lparr>ue_index = ue_index (ue_ids ue), ran_ue_id = r, amf_ue_id = a\<rparr>\<rparr>) (ues s),
        amf_ue_id_to_ran_ue_id := (if amf_ue_id (ue_ids ue) = amf_ue_id_invalid P
          then emplace a r (amf_ue_id_to_ran_ue_id s)
          else erase (amf_ue_id (ue_ids ue)) (emplace a r (amf_ue_id_to_ran_ue_id s)))\<rparr>"
proof (cases "fmlookup (ues s) r")
  case None
  with assms show ?thesis by (simp add: update_amf_ue_id_def split: if_splits)
next
  case (Some ue)
  with assms have 1: "a \<noteq> amf_ue_id_invalid P" "r \<noteq> ran_ue_id_invalid P"
    by (simp_all add: update_amf_ue_id_def split: if_splits)
  show ?thesis
  proof (rule that [OF Some 1])
    assume "amf_ue_id (ue_ids ue) = a"
    with assms Some 1 show "s' = s" by (simp add: update_amf_ue_id_def)
  next
    assume "amf_ue_id (ue_ids ue) \<noteq> a"
    with assms Some 1 show "s' = s\<lparr>ues := fmupd r (ue\<lparr>ue_ids := (ue_ids ue)\<lparr>amf_ue_id := a\<rparr>,
        logger_prefix := \<lparr>ue_index = ue_index (ue_ids ue), ran_ue_id = r, amf_ue_id = a\<rparr>\<rparr>) (ues s),
        amf_ue_id_to_ran_ue_id := (if amf_ue_id (ue_ids ue) = amf_ue_id_invalid P
          then emplace a r (amf_ue_id_to_ran_ue_id s)
          else erase (amf_ue_id (ue_ids ue)) (emplace a r (amf_ue_id_to_ran_ue_id s)))\<rparr>"
      by (simp add: update_amf_ue_id_def Let_def split: if_splits)
  qed
qed


lemma three_way_consistentD:
  assumes "three_way_consistent P s"
  shows "fmlookup (ues s) r = Some ue \<Longrightarrow> ran_ue_id (ue_ids ue) = r"
    and "fmlookup (ues s) r = Some ue \<Longrightarrow>
           fmlookup (ue_index_to_ran_ue_id s) (ue_index (ue_ids ue)) = Some r"
    and "fmlookup (ues s) r = Some ue \<Longrightarrow> amf_ue_id (ue_ids ue) \<noteq> amf_ue_id_invalid P \<Longrightarrow>
           fmlookup (amf_ue_id_to_ran_ue_id s) (amf_ue_id (ue_ids ue)) = Some r"
    and "fmlookup (ue_index_to_ran_ue_id s) u = Some r \<Longrightarrow>
           \<exists>ue. fmlookup (ues s) r = Some ue \<and> ue_index (ue_ids ue) = u"
    and "fmlookup (amf_ue_id_to_ran_ue_id s) a = Some r \<Longrightarrow> a \<noteq> amf_ue_id_invalid P"
    and "fmlookup (amf_ue_id_to_ran_ue_id s) a = Some r \<Longrightarrow>
           \<exists>ue. fmlookup (ues s) r = Some ue \<and> amf_ue_id (ue_ids ue) = a"
  using assms unfolding three_way_consistent_iff by blast+

lemma three_way_consistentI:
  assumes "\<And>r ue. fmlookup (ues s) r = Some ue \<Longrightarrow> ran_ue_id (ue_ids ue) = r"
    and "\<And>r ue. fmlookup (ues s) r = Some ue \<Longrightarrow>
           fmlookup (ue_index_to_ran_ue_id s) (ue_index (ue_ids ue)) = Some r"
    and "\<And>r ue. fmlookup (ues s) r = Some ue \<Longrightarrow> amf_ue_id (ue_ids ue) \<noteq> amf_ue_id_invalid P \<Longrightarrow>
           fmlookup (amf_ue_id_to_ran_ue_id s) (amf_ue_id (ue_ids ue)) = Some r"
    and "\<And>u r. fmlookup (ue_index_to_ran_ue_id s) u = Some r \<Longrightarrow>
           \<exists>ue. fmlookup (ues s) r = Some ue \<and> ue_index (ue_ids ue) = u"
    and "\<And>a r. fmlookup (amf_ue_id_to_ran_ue_id s) a = Some r \<Longrightarrow> a \<noteq> amf_ue_id_invalid P"
    and "\<And>a r. fmlookup (amf_ue_id_to_ran_ue_id s) a = Some r \<Longrightarrow>
           \<exists>ue. fmlookup (ues s) r = Some ue \<and> amf_ue_id (ue_ids ue) = a"
  shows "three_way_consistent P s"
  unfolding three_way_consistent_iff using assms by blast

lemma update_amf_ue_id_preserves:
  assumes inv: "three_way_consistent P s"
    and upd: "update_amf_ue_id P r a s = Inr s'"
    and fresh: "fmlookup (amf_ue_id_to_ran_ue_id s) a = None \<or> fmlookup (amf_ue_id_to_ran_ue_id s) a = Some r"
  shows "three_way_consistent P s'"
proof (rule update_amf_ue_id_Inr [OF upd])
  fix ue
  assume ue: "fmlookup (ues s) r = Some ue" and a: "a \<noteq> amf_ue_id_invalid P"
    and rv: "r \<noteq> ran_ue_id_invalid P"
    and same: "amf_ue_id (ue_ids ue) = a \<Longrightarrow> s' = s"
    and diff: "amf_ue_id (ue_ids ue) \<noteq> a \<Longrightarrow> 
       s' = s\<lparr>ues := fmupd r (ue\<lparr>ue_ids := (ue_ids ue)\<lparr>amf_ue_id := a\<rparr>,
        logger_prefix := \<lparr>ue_index = ue_index (ue_ids ue), ran_ue_id = r, amf_ue_id = a\<rparr>\<rparr>) (ues s),
        amf_ue_id_to_ran_ue_id := (if amf_ue_id (ue_ids ue) = amf_ue_id_invalid P
          then emplace a r (amf_ue_id_to_ran_ue_id s)
          else erase (amf_ue_id (ue_ids ue)) (emplace a r (amf_ue_id_to_ran_ue_id s)))\<rparr>"
  note D = three_way_consistentD [OF inv]
  show ?thesis
  proof (cases "amf_ue_id (ue_ids ue) = a")
    case True
    with same inv show ?thesis by simp
  next
    case False
    have fr: "fmlookup (amf_ue_id_to_ran_ue_id s) a = None"
    proof (rule ccontr)
      assume "fmlookup (amf_ue_id_to_ran_ue_id s) a \<noteq> None"
      with fresh have "fmlookup (amf_ue_id_to_ran_ue_id s) a = Some r" by simp
      from D(6) [OF this] ue False show False by simp
    qed
    define ue' where "ue' = ue\<lparr>ue_ids := (ue_ids ue)\<lparr>amf_ue_id := a\<rparr>,
        logger_prefix := \<lparr>ue_index = ue_index (ue_ids ue), ran_ue_id = r, amf_ue_id = a\<rparr>\<rparr>"
    have ids: "ue_index (ue_ids ue') = ue_index (ue_ids ue)" "ran_ue_id (ue_ids ue') = ran_ue_id (ue_ids ue)"
      "amf_ue_id (ue_ids ue') = a" by (simp_all add: ue'_def)
    have U: "fmlookup (ues s') k = (if k = r then Some ue' else fmlookup (ues s) k)" for k
      by (simp add: diff [OF False] ue'_def)
    have I: "ue_index_to_ran_ue_id s' = ue_index_to_ran_ue_id s"
      by (simp add: diff [OF False])
    have old: "amf_ue_id (ue_ids ue) \<noteq> amf_ue_id_invalid P \<Longrightarrow>
        fmlookup (amf_ue_id_to_ran_ue_id s) (amf_ue_id (ue_ids ue)) = Some r"
      using D(3) [OF ue] .
    have L: "fmlookup (amf_ue_id_to_ran_ue_id s') k =
        (if k = a then Some r
         else if k = amf_ue_id (ue_ids ue) then None
         else fmlookup (amf_ue_id_to_ran_ue_id s) k)" for k
    proof (cases "amf_ue_id (ue_ids ue) = amf_ue_id_invalid P")
      case True
      have "fmlookup (amf_ue_id_to_ran_ue_id s) (amf_ue_id_invalid P) = None"
        using D(5) [of "amf_ue_id_invalid P"] by (cases "fmlookup (amf_ue_id_to_ran_ue_id s) (amf_ue_id_invalid P)") auto
      with True fr show ?thesis by (simp add: diff [OF False] fmlookup_emplace)
    next
      case F: False
      with fr False show ?thesis by (simp add: diff [OF \<open>amf_ue_id (ue_ids ue) \<noteq> a\<close>] fmlookup_emplace fmlookup_erase)
    qed
    show ?thesis
    proof (rule three_way_consistentI)
      fix r0 ue0 assume h: "fmlookup (ues s') r0 = Some ue0"
      have c: "(r0 = r \<and> ue0 = ue') \<or> (r0 \<noteq> r \<and> fmlookup (ues s) r0 = Some ue0)"
        using h by (simp add: U split: if_splits)
      from c show "ran_ue_id (ue_ids ue0) = r0"
        using D(1) [of r0 ue0] D(1) [OF ue] ids by auto
      from c show "fmlookup (ue_index_to_ran_ue_id s') (ue_index (ue_ids ue0)) = Some r0"
        using D(2) [of r0 ue0] D(2) [OF ue] ids I by auto
      show "fmlookup (amf_ue_id_to_ran_ue_id s') (amf_ue_id (ue_ids ue0)) = Some r0"
        if "amf_ue_id (ue_ids ue0) \<noteq> amf_ue_id_invalid P"
      proof (cases "r0 = r")
        case True
        with h have "ue0 = ue'" by (simp add: U)
        with True show ?thesis by (simp add: L ids)
      next
        case False
        with h have h0: "fmlookup (ues s) r0 = Some ue0" by (simp add: U)
        from D(3) [OF h0 that] have m: "fmlookup (amf_ue_id_to_ran_ue_id s) (amf_ue_id (ue_ids ue0)) = Some r0" .
        have "amf_ue_id (ue_ids ue0) \<noteq> a" using m fr by auto
        moreover have "amf_ue_id (ue_ids ue0) \<noteq> amf_ue_id (ue_ids ue)"
          using m old that False by auto
        ultimately show ?thesis using m by (simp add: L)
      qed
    next
      fix u r0 assume "fmlookup (ue_index_to_ran_ue_id s') u = Some r0"
      then have "fmlookup (ue_index_to_ran_ue_id s) u = Some r0" by (simp add: I)
      from D(4) [OF this] obtain ue0 where "fmlookup (ues s) r0 = Some ue0" "ue_index (ue_ids ue0) = u"
        by blast
      then show "\<exists>ue. fmlookup (ues s') r0 = Some ue \<and> ue_index (ue_ids ue) = u"
        using ue by (auto simp: U ids)
    next
      fix a0 r0 assume h: "fmlookup (amf_ue_id_to_ran_ue_id s') a0 = Some r0"
      show "a0 \<noteq> amf_ue_id_invalid P"
        using h D(5) [of a0 r0] a by (auto simp: L split: if_splits)
      show "\<exists>ue. fmlookup (ues s') r0 = Some ue \<and> amf_ue_id (ue_ids ue) = a0"
      proof (cases "a0 = a")
        case True
        with h show ?thesis by (simp add: L U ids)
      next
        case False
        with h have ne: "a0 \<noteq> amf_ue_id (ue_ids ue)" and h0: "fmlookup (amf_ue_id_to_ran_ue_id s) a0 = Some r0"
          by (auto simp: L split: if_splits)
        from D(6) [OF h0] obtain ue0 where ue0: "fmlookup (ues s) r0 = Some ue0" "amf_ue_id (ue_ids ue0) = a0"
          by blast
        with ne ue have "r0 \<noteq> r" by auto
        with ue0 show ?thesis by (simp add: U)
      qed
    qed
  qed
qed

lemma update_ue_index_Inr:
  assumes "update_ue_index P new old s = Inr s'"
  obtains r ue where "fmlookup (ue_index_to_ran_ue_id s) old = Some r" "fmlookup (ues s) r = Some ue"
    "new \<noteq> ue_index_invalid P" "old \<noteq> ue_index_invalid P"
    "s' = s\<lparr>ues := fmupd r (ue\<lparr>ue_ids := (ue_ids ue)\<lparr>ue_index := new\<rparr>,
              logger_prefix := \<lparr>ue_index = new, ran_ue_id = r, amf_ue_id = amf_ue_id (ue_ids ue)\<rparr>\<rparr>) (ues s),
            ue_index_to_ran_ue_id := erase old (emplace new r (ue_index_to_ran_ue_id s))\<rparr>"
proof (cases "fmlookup (ue_index_to_ran_ue_id s) old")
  case None
  with assms show ?thesis by (simp add: update_ue_index_def split: if_splits)
next
  case (Some r)
  note r = this
  show ?thesis
  proof (cases "fmlookup (ues s) r")
    case None
    with assms r show ?thesis by (simp add: update_ue_index_def split: if_splits)
  next
    case (Some ue)
    with assms r have 1: "new \<noteq> ue_index_invalid P" "old \<noteq> ue_index_invalid P"
      by (simp_all add: update_ue_index_def split: if_splits)
    show ?thesis
    proof (rule that [OF r Some 1])
      from assms r Some 1 show "s' = s\<lparr>ues := fmupd r (ue\<lparr>ue_ids := (ue_ids ue)\<lparr>ue_index := new\<rparr>,
              logger_prefix := \<lparr>ue_index = new, ran_ue_id = r, amf_ue_id = amf_ue_id (ue_ids ue)\<rparr>\<rparr>) (ues s),
            ue_index_to_ran_ue_id := erase old (emplace new r (ue_index_to_ran_ue_id s))\<rparr>"
        by (simp add: update_ue_index_def Let_def)
    qed
  qed
qed

lemma update_ue_index_preserves:
  assumes inv: "three_way_consistent P s"
    and upd: "update_ue_index P new old s = Inr s'"
    and fresh: "fmlookup (ue_index_to_ran_ue_id s) new = None"
  shows "three_way_consistent P s'"
proof (rule update_ue_index_Inr [OF upd])
  fix r ue
  assume old: "fmlookup (ue_index_to_ran_ue_id s) old = Some r" and ue: "fmlookup (ues s) r = Some ue"
    and s': "s' = s\<lparr>ues := fmupd r (ue\<lparr>ue_ids := (ue_ids ue)\<lparr>ue_index := new\<rparr>,
              logger_prefix := \<lparr>ue_index = new, ran_ue_id = r, amf_ue_id = amf_ue_id (ue_ids ue)\<rparr>\<rparr>) (ues s),
            ue_index_to_ran_ue_id := erase old (emplace new r (ue_index_to_ran_ue_id s))\<rparr>"
  note D = three_way_consistentD [OF inv]
  define ue' where "ue' = ue\<lparr>ue_ids := (ue_ids ue)\<lparr>ue_index := new\<rparr>,
              logger_prefix := \<lparr>ue_index = new, ran_ue_id = r, amf_ue_id = amf_ue_id (ue_ids ue)\<rparr>\<rparr>"
  have ids: "ue_index (ue_ids ue') = new" "ran_ue_id (ue_ids ue') = ran_ue_id (ue_ids ue)"
    "amf_ue_id (ue_ids ue') = amf_ue_id (ue_ids ue)" by (simp_all add: ue'_def)
  have U: "fmlookup (ues s') k = (if k = r then Some ue' else fmlookup (ues s) k)" for k
    by (simp add: s' ue'_def)
  have A: "amf_ue_id_to_ran_ue_id s' = amf_ue_id_to_ran_ue_id s"
    by (simp add: s')
  from old fresh have ne: "new \<noteq> old" by auto
  from D(4) [OF old] ue have uold: "ue_index (ue_ids ue) = old" by simp
  have L: "fmlookup (ue_index_to_ran_ue_id s') k =
      (if k = old then None else if k = new then Some r else fmlookup (ue_index_to_ran_ue_id s) k)" for k
    using fresh by (simp add: s' fmlookup_emplace fmlookup_erase)
  show ?thesis
  proof (rule three_way_consistentI)
    fix r0 ue0 assume h: "fmlookup (ues s') r0 = Some ue0"
    have c: "(r0 = r \<and> ue0 = ue') \<or> (r0 \<noteq> r \<and> fmlookup (ues s) r0 = Some ue0)"
      using h by (simp add: U split: if_splits)
    from c show "ran_ue_id (ue_ids ue0) = r0"
      using D(1) [of r0 ue0] D(1) [OF ue] ids by auto
    show "fmlookup (ue_index_to_ran_ue_id s') (ue_index (ue_ids ue0)) = Some r0"
    proof (cases "r0 = r")
      case True
      with c have "ue0 = ue'" by simp
      with True ne show ?thesis by (simp add: L ids)
    next
      case False
      with c have h0: "fmlookup (ues s) r0 = Some ue0" by simp
      from D(2) [OF h0] have m: "fmlookup (ue_index_to_ran_ue_id s) (ue_index (ue_ids ue0)) = Some r0" .
      have "ue_index (ue_ids ue0) \<noteq> new" using m fresh by auto
      moreover have "ue_index (ue_ids ue0) \<noteq> old" using m old False by auto
      ultimately show ?thesis using m by (simp add: L)
    qed
    from c show "fmlookup (amf_ue_id_to_ran_ue_id s') (amf_ue_id (ue_ids ue0)) = Some r0"
      if "amf_ue_id (ue_ids ue0) \<noteq> amf_ue_id_invalid P"
      using that D(3) [of r0 ue0] D(3) [OF ue] ids A by auto
  next
    fix u r0 assume h: "fmlookup (ue_index_to_ran_ue_id s') u = Some r0"
    show "\<exists>ue. fmlookup (ues s') r0 = Some ue \<and> ue_index (ue_ids ue) = u"
    proof (cases "u = new")
      case True
      with h ne show ?thesis by (simp add: L U ids)
    next
      case False
      with h have n: "u \<noteq> old" and h0: "fmlookup (ue_index_to_ran_ue_id s) u = Some r0"
        by (auto simp: L split: if_splits)
      from D(4) [OF h0] obtain ue0 where ue0: "fmlookup (ues s) r0 = Some ue0" "ue_index (ue_ids ue0) = u"
        by blast
      with n ue uold have "r0 \<noteq> r" by auto
      with ue0 show ?thesis by (simp add: U)
    qed
  next
    fix a0 r0 assume h: "fmlookup (amf_ue_id_to_ran_ue_id s') a0 = Some r0"
    then have h0: "fmlookup (amf_ue_id_to_ran_ue_id s) a0 = Some r0" by (simp add: A)
    from D(5) [OF h0] show "a0 \<noteq> amf_ue_id_invalid P" .
    from D(6) [OF h0] obtain ue0 where ue0: "fmlookup (ues s) r0 = Some ue0" "amf_ue_id (ue_ids ue0) = a0"
      by blast
    then show "\<exists>ue. fmlookup (ues s') r0 = Some ue \<and> amf_ue_id (ue_ids ue) = a0"
      using ue by (auto simp: U ids)
  qed
qed

lemma update_ue_index_old_gone:
  assumes upd: "update_ue_index P new old s = Inr s'"
  shows "fmlookup (ue_index_to_ran_ue_id s') old = None"
  by (rule update_ue_index_Inr [OF upd]) (simp add: fmlookup_erase)

lemma update_amf_ue_id_old_gone:
  assumes inv: "three_way_consistent P s"
    and upd: "update_amf_ue_id P r a s = Inr s'"
    and ue: "fmlookup (ues s) r = Some ue" and ne: "amf_ue_id (ue_ids ue) \<noteq> a"
  shows "fmlookup (amf_ue_id_to_ran_ue_id s') (amf_ue_id (ue_ids ue)) = None"
proof (rule update_amf_ue_id_Inr [OF upd])
  fix ue0
  assume ue0: "fmlookup (ues s) r = Some ue0"
    and diff: "amf_ue_id (ue_ids ue0) \<noteq> a \<Longrightarrow> 
       s' = s\<lparr>ues := fmupd r (ue0\<lparr>ue_ids := (ue_ids ue0)\<lparr>amf_ue_id := a\<rparr>,
        logger_prefix := \<lparr>ue_index = ue_index (ue_ids ue0), ran_ue_id = r, amf_ue_id = a\<rparr>\<rparr>) (ues s),
        amf_ue_id_to_ran_ue_id := (if amf_ue_id (ue_ids ue0) = amf_ue_id_invalid P
          then emplace a r (amf_ue_id_to_ran_ue_id s)
          else erase (amf_ue_id (ue_ids ue0)) (emplace a r (amf_ue_id_to_ran_ue_id s)))\<rparr>"
  from ue ue0 have e: "ue0 = ue" by simp
  have "fmlookup (amf_ue_id_to_ran_ue_id s) (amf_ue_id_invalid P) = None"
    using three_way_consistentD(5) [OF inv, of "amf_ue_id_invalid P"]
    by (cases "fmlookup (amf_ue_id_to_ran_ue_id s) (amf_ue_id_invalid P)") auto
  then show ?thesis
    using ne by (simp add: diff [unfolded e, OF ne] fmlookup_emplace fmlookup_erase)
qed

lemma update_amf_ue_id_sets:
  assumes upd: "update_amf_ue_id P r a s = Inr s'"
  shows "\<exists>ue'. fmlookup (ues s') r = Some ue' \<and> amf_ue_id (ue_ids ue') = a"
proof (rule update_amf_ue_id_Inr [OF upd])
  fix ue
  assume ue: "fmlookup (ues s) r = Some ue"
    and same: "amf_ue_id (ue_ids ue) = a \<Longrightarrow> s' = s"
    and diff: "amf_ue_id (ue_ids ue) \<noteq> a \<Longrightarrow>
       s' = s\<lparr>ues := fmupd r (ue\<lparr>ue_ids := (ue_ids ue)\<lparr>amf_ue_id := a\<rparr>,
        logger_prefix := \<lparr>ue_index = ue_index (ue_ids ue), ran_ue_id = r, amf_ue_id = a\<rparr>\<rparr>) (ues s),
        amf_ue_id_to_ran_ue_id := (if amf_ue_id (ue_ids ue) = amf_ue_id_invalid P
          then emplace a r (amf_ue_id_to_ran_ue_id s)
          else erase (amf_ue_id (ue_ids ue)) (emplace a r (amf_ue_id_to_ran_ue_id s)))\<rparr>"
  show ?thesis
  proof (cases "amf_ue_id (ue_ids ue) = a")
    case True
    with same ue show ?thesis by simp
  next
    case False
    show ?thesis by (simp add: diff [OF False])
  qed
qed

lemma increase_next_ran_ue_id_fields:
  "ue_index_to_ran_ue_id (increase_next_ran_ue_id P s) = ue_index_to_ran_ue_id s"
  "amf_ue_id_to_ran_ue_id (increase_next_ran_ue_id P s) = amf_ue_id_to_ran_ue_id s"
  "ues (increase_next_ran_ue_id P s) = ues s"
  "next_ran_ue_id (increase_next_ran_ue_id P s) =
     (if next_ran_ue_id s = ran_ue_id_max P then ran_ue_id_min P else next_ran_ue_id s + 1)"
  "ran_ue_id_in_use (increase_next_ran_ue_id P s) r = ran_ue_id_in_use s r"
  by (simp_all add: increase_next_ran_ue_id_def ran_ue_id_in_use_def)

lemma increase_next_ran_ue_id_eq:
  "increase_next_ran_ue_id P s =
     s\<lparr>next_ran_ue_id := if next_ran_ue_id s = ran_ue_id_max P then ran_ue_id_min P else next_ran_ue_id s + 1\<rparr>"
  by (simp add: increase_next_ran_ue_id_def)

lemma find_unused_ran_ue_id_Some:
  fixes P :: "('u, 'r::len, 'a) ngap_types" and s :: "('u, 'r, 'a, 't) ngap_ue_context_list"
  assumes "find_unused_ran_ue_id P s = Some y"
  shows "\<not> ran_ue_id_in_use s (fst y) \<and>
         snd y = s\<lparr>next_ran_ue_id := if fst y = ran_ue_id_max P then ran_ue_id_min P else fst y + 1\<rparr>"
proof -
  let ?Q = "\<lambda>ps y. \<not> ran_ue_id_in_use (snd ps) (fst y) \<and>
         snd y = (snd ps)\<lparr>next_ran_ue_id :=
                   if fst y = ran_ue_id_max (fst ps) then ran_ue_id_min (fst ps) else fst y + 1\<rparr>"
  have "?Q (P, s) y"
  proof (rule find_unused_ran_ue_id.raw_induct [where Pa = ?Q, OF _ assms])
    fix f and P :: "('u, 'r, 'a) ngap_types" and s :: "('u, 'r, 'a, 't) ngap_ue_context_list" and y
    assume IH: "\<And>P s y. f P s = Some y \<Longrightarrow> ?Q (P, s) y"
      and eq: "(if ran_ue_id_in_use s (next_ran_ue_id s)
                then f P (increase_next_ran_ue_id P s)
                else Some (next_ran_ue_id s, increase_next_ran_ue_id P s)) = Some y"
    show "?Q (P, s) y"
    proof (cases "ran_ue_id_in_use s (next_ran_ue_id s)")
      case True
      with eq have "f P (increase_next_ran_ue_id P s) = Some y" by simp
      from IH [OF this] show ?thesis
        by (simp add: increase_next_ran_ue_id_eq ran_ue_id_in_use_def)
    next
      case False
      with eq have "y = (next_ran_ue_id s, increase_next_ran_ue_id P s)" by simp
      with False show ?thesis by (simp add: increase_next_ran_ue_id_eq)
    qed
  qed
  then show ?thesis by simp
qed

lemma word_succ_in_range:
  fixes x :: "'a::len word"
  assumes "x < y" "m \<le> x"
  shows "m \<le> x + 1" "x + 1 \<le> y" "unat (x + 1) = unat x + 1"
proof -
  from assms(1) have "x \<noteq> - 1"
    by (metis word_order.extremum leD)
  then have ne: "1 + x \<noteq> 0"
    using max_word_wrap [of x] by (auto simp: add.commute)
  from unatSuc [OF ne] show u: "unat (x + 1) = unat x + 1" by (simp add: add.commute)
  from assms(1) show "x + 1 \<le> y" by (rule inc_le)
  from assms(2) u show "m \<le> x + 1" by (simp add: word_le_nat_alt)
qed

lemma increase_next_ran_ue_id_range:
  assumes "ran_ue_id_min P \<le> next_ran_ue_id s" "next_ran_ue_id s \<le> ran_ue_id_max P"
  shows "ran_ue_id_min P \<le> next_ran_ue_id (increase_next_ran_ue_id P s)"
    "next_ran_ue_id (increase_next_ran_ue_id P s) \<le> ran_ue_id_max P"
    "next_ran_ue_id s \<noteq> ran_ue_id_max P \<Longrightarrow>
       unat (next_ran_ue_id (increase_next_ran_ue_id P s)) = unat (next_ran_ue_id s) + 1"
proof -
  have *: "next_ran_ue_id s < ran_ue_id_max P" if "next_ran_ue_id s \<noteq> ran_ue_id_max P"
    using that assms(2) by simp
  from assms have mm: "ran_ue_id_min P \<le> ran_ue_id_max P" by (rule order_trans)
  show "ran_ue_id_min P \<le> next_ran_ue_id (increase_next_ran_ue_id P s)"
  proof (cases "next_ran_ue_id s = ran_ue_id_max P")
    case True
    then show ?thesis by (simp add: increase_next_ran_ue_id_fields)
  next
    case False
    with word_succ_in_range(1) [OF * [OF False] assms(1)] show ?thesis
      by (simp add: increase_next_ran_ue_id_fields)
  qed
  show "next_ran_ue_id (increase_next_ran_ue_id P s) \<le> ran_ue_id_max P"
    using word_succ_in_range(2) [OF * assms(1)] mm by (simp add: increase_next_ran_ue_id_fields)
  show "next_ran_ue_id s \<noteq> ran_ue_id_max P \<Longrightarrow>
       unat (next_ran_ue_id (increase_next_ran_ue_id P s)) = unat (next_ran_ue_id s) + 1"
    using word_succ_in_range(3) [OF * assms(1)] by (simp add: increase_next_ran_ue_id_fields)
qed

lemma find_unused_ran_ue_id_range:
  fixes P :: "('u, 'r::len, 'a) ngap_types" and s :: "('u, 'r, 'a, 't) ngap_ue_context_list"
  assumes "find_unused_ran_ue_id P s = Some y"
    and "ran_ue_id_min P \<le> next_ran_ue_id s" "next_ran_ue_id s \<le> ran_ue_id_max P"
  shows "ran_ue_id_min P \<le> fst y \<and> fst y \<le> ran_ue_id_max P"
proof -
  let ?Q = "\<lambda>ps y. ran_ue_id_min (fst ps) \<le> next_ran_ue_id (snd ps) \<longrightarrow>
                    next_ran_ue_id (snd ps) \<le> ran_ue_id_max (fst ps) \<longrightarrow>
                    ran_ue_id_min (fst ps) \<le> fst y \<and> fst y \<le> ran_ue_id_max (fst ps)"
  have "?Q (P, s) y"
  proof (rule find_unused_ran_ue_id.raw_induct [where Pa = ?Q, OF _ assms(1)])
    fix f and P :: "('u, 'r, 'a) ngap_types" and s :: "('u, 'r, 'a, 't) ngap_ue_context_list" and y
    assume IH: "\<And>P s y. f P s = Some y \<Longrightarrow> ?Q (P, s) y"
      and eq: "(if ran_ue_id_in_use s (next_ran_ue_id s)
                then f P (increase_next_ran_ue_id P s)
                else Some (next_ran_ue_id s, increase_next_ran_ue_id P s)) = Some y"
    show "?Q (P, s) y"
    proof (cases "ran_ue_id_in_use s (next_ran_ue_id s)")
      case True
      with eq have "f P (increase_next_ran_ue_id P s) = Some y" by simp
      from IH [OF this] show ?thesis
        using increase_next_ran_ue_id_range(1,2) [of P s] by simp
    next
      case False
      with eq have "y = (next_ran_ue_id s, increase_next_ran_ue_id P s)" by simp
      then show ?thesis by simp
    qed
  qed
  with assms(2,3) show ?thesis by simp
qed


lemma consistent_sizes:
  assumes inv: "three_way_consistent P s"
  shows "fcard (fmdom (ue_index_to_ran_ue_id s)) = size_ues s"
proof -
  note D = three_way_consistentD [OF inv]
  let ?f = "\<lambda>u. the (fmlookup (ue_index_to_ran_ue_id s) u)"
  have inj: "inj_on ?f (fset (fmdom (ue_index_to_ran_ue_id s)))"
  proof (rule inj_onI)
    fix u v
    assume "u \<in> fset (fmdom (ue_index_to_ran_ue_id s))" "v \<in> fset (fmdom (ue_index_to_ran_ue_id s))"
      and eq: "?f u = ?f v"
    then obtain ru rv where ru: "fmlookup (ue_index_to_ran_ue_id s) u = Some ru"
      and rv: "fmlookup (ue_index_to_ran_ue_id s) v = Some rv"
      by (auto simp: fmlookup_dom_iff)
    with eq have "ru = rv" by simp
    with D(4) [OF ru] D(4) [OF rv] show "u = v" by auto
  qed
  have img: "?f ` fset (fmdom (ue_index_to_ran_ue_id s)) = fset (fmdom (ues s))"
  proof (intro equalityI subsetI)
    fix r assume "r \<in> ?f ` fset (fmdom (ue_index_to_ran_ue_id s))"
    then obtain u where "u |\<in>| fmdom (ue_index_to_ran_ue_id s)" "r = ?f u" by auto
    then have "fmlookup (ue_index_to_ran_ue_id s) u = Some r" by (auto simp: fmlookup_dom_iff)
    from D(4) [OF this] show "r \<in> fset (fmdom (ues s))" by (auto intro: fmdomI)
  next
    fix r assume "r \<in> fset (fmdom (ues s))"
    then obtain ue where ue: "fmlookup (ues s) r = Some ue" by (auto simp: fmlookup_dom_iff)
    from D(2) [OF ue] have l: "fmlookup (ue_index_to_ran_ue_id s) (ue_index (ue_ids ue)) = Some r" .
    then have "ue_index (ue_ids ue) \<in> fset (fmdom (ue_index_to_ran_ue_id s))" by (auto intro: fmdomI)
    moreover from l have "?f (ue_index (ue_ids ue)) = r" by simp
    ultimately show "r \<in> ?f ` fset (fmdom (ue_index_to_ran_ue_id s))" by (rule rev_image_eqI [OF _ sym])
  qed
  from card_image [OF inj] img show ?thesis
    by (simp add: size_ues_def fcard.rep_eq)
qed

lemma allocate_full:
  assumes "fcard (fmdom (ue_index_to_ran_ue_id s)) = MAX_NOF_RAN_UES P"
  shows "allocate_ran_ue_id P s = Some (ran_ue_id_invalid P, s)"
  using assms by (simp add: allocate_ran_ue_id_def)

lemma not_contains_ue_index:
  assumes inv: "three_way_consistent P s" and n: "\<not> contains_ue_index s u"
  shows "fmlookup (ue_index_to_ran_ue_id s) u = None"
proof (cases "fmlookup (ue_index_to_ran_ue_id s) u")
  case None then show ?thesis .
next
  case (Some r)
  from three_way_consistentD(4) [OF inv Some] obtain ue where "fmlookup (ues s) r = Some ue" by blast
  then have "r |\<in>| fmdom (ues s)" by (rule fmdomI)
  with Some n show ?thesis by (simp add: contains_ue_index_def)
qed

lemma not_contains_amf_ue_id:
  assumes inv: "three_way_consistent P s" and n: "\<not> contains_amf_ue_id s a"
  shows "fmlookup (amf_ue_id_to_ran_ue_id s) a = None"
proof (cases "fmlookup (amf_ue_id_to_ran_ue_id s) a")
  case None then show ?thesis .
next
  case (Some r)
  from three_way_consistentD(6) [OF inv Some] obtain ue where "fmlookup (ues s) r = Some ue" by blast
  then have "r |\<in>| fmdom (ues s)" by (rule fmdomI)
  with Some n show ?thesis by (simp add: contains_amf_ue_id_def)
qed


lemma ran_ue_id_in_use_iff:
  "ran_ue_id_in_use s r \<longleftrightarrow> (\<exists>u. fmlookup (ue_index_to_ran_ue_id s) u = Some r)"
  unfolding ran_ue_id_in_use_def by (metis fmdomI)

lemmas store_eval =
  example_types_def small_types_def two_ues_def wrapping_ues_def full_ues_def
  add_ue_def update_amf_ue_id_def update_ue_index_def remove_ue_context_def
  emplace_def erase_def new_ngap_ue_context_def empty_list_def
  three_way_consistent_def at_ue_index_def at_amf_ue_id_def at_ran_ue_id_def
  contains_ue_index_def contains_amf_ue_id_def contains_ran_ue_id_def find_ue_def
  size_ues_def ran_ue_id_in_use_def increase_next_ran_ue_id_def
  fcard_finsert_if fcard_fempty Let_def

subsection \<open>Identity transitions and three-way consistency\<close>

text \<open>
  Claim C6, as stated, fails. The assertions of \<open>update_amf_ue_id\<close> and of
  \<open>update_ue_index\<close> do not ask for the new identifier to be unused, and \<open>emplace\<close>
  keeps an existing entry. In the store \<open>two_ues\<close> the AMF-UE-ID 7 belongs to the device
  with RAN-UE-ID 0. Giving it to the device with RAN-UE-ID 1 passes every assertion; the
  context of device 1 then carries 7, but the lookup of 7 still leads to device 0. In the
  same way, moving device 0 to the UE index 1 of the other device passes every
  assertion, and afterwards the context of device 0 carries the index 1 while the lookup
  of 1 leads to device 1. Both stores are inconsistent.
\<close>

theorem identity_transition_breaks_consistency:
  "three_way_consistent example_types two_ues \<and>
   update_amf_ue_id example_types 1 7 two_ues =
     Inr (projr (update_amf_ue_id example_types 1 7 two_ues)) \<and>
   map_sum id (amf_ue_id \<circ> ue_ids) (at_ran_ue_id (projr (update_amf_ue_id example_types 1 7 two_ues)) 1) = Inr 7 \<and>
   at_amf_ue_id (projr (update_amf_ue_id example_types 1 7 two_ues)) 7 \<noteq>
     at_ran_ue_id (projr (update_amf_ue_id example_types 1 7 two_ues)) 1 \<and>
   \<not> three_way_consistent example_types (projr (update_amf_ue_id example_types 1 7 two_ues)) \<and>
   update_ue_index example_types 1 0 two_ues =
     Inr (projr (update_ue_index example_types 1 0 two_ues)) \<and>
   map_sum id (ue_index \<circ> ue_ids) (at_ran_ue_id (projr (update_ue_index example_types 1 0 two_ues)) 0) = Inr 1 \<and>
   at_ue_index (projr (update_ue_index example_types 1 0 two_ues)) 1 \<noteq>
     at_ran_ue_id (projr (update_ue_index example_types 1 0 two_ues)) 0 \<and>
   \<not> three_way_consistent example_types (projr (update_ue_index example_types 1 0 two_ues))"
  by (simp add: store_eval)

text \<open>
  Claim C6, amended. In a consistent store, a successful \<open>update_amf_ue_id\<close> whose
  AMF-UE-ID is not contained in the store or is already the one of the device, and a
  successful \<open>update_ue_index\<close> whose new UE index is not contained in the store, leave
  the store consistent: every context is reached under its RAN-UE-ID, its UE index and
  its AMF-UE-ID alike. The new identifier is contained and leads to the context of the
  device, and the identifier it replaces is no longer contained.
\<close>

theorem identity_transitions_keep_consistency:
  fixes s :: "('u, 'r::len, 'a, 't) ngap_ue_context_list"
  assumes inv: "three_way_consistent P s"
  shows "(update_amf_ue_id P r a s = Inr s' \<and>
            (\<not> contains_amf_ue_id s a \<or> at_amf_ue_id s a = at_ran_ue_id s r) \<longrightarrow>
          three_way_consistent P s' \<and>
          contains_amf_ue_id s' a \<and> at_amf_ue_id s' a = at_ran_ue_id s' r \<and>
          (\<forall>ue. at_ran_ue_id s r = Inr ue \<and> amf_ue_id (ue_ids ue) \<noteq> a \<longrightarrow>
             \<not> contains_amf_ue_id s' (amf_ue_id (ue_ids ue)))) \<and>
         (update_ue_index P new old s = Inr s'' \<and> \<not> contains_ue_index s new \<longrightarrow>
          three_way_consistent P s'' \<and>
          contains_ue_index s'' new \<and>
          (\<forall>r0. fmlookup (ue_index_to_ran_ue_id s) old = Some r0 \<longrightarrow>
             at_ue_index s'' new = at_ran_ue_id s'' r0) \<and>
          \<not> contains_ue_index s'' old)"
proof (intro conjI impI)
  note D = three_way_consistentD [OF inv]
  assume h: "update_amf_ue_id P r a s = Inr s' \<and>
            (\<not> contains_amf_ue_id s a \<or> at_amf_ue_id s a = at_ran_ue_id s r)"
  then have upd: "update_amf_ue_id P r a s = Inr s'" by simp
  from upd obtain ue where ue: "fmlookup (ues s) r = Some ue" and a: "a \<noteq> amf_ue_id_invalid P"
    by (rule update_amf_ue_id_Inr)
  have fresh: "fmlookup (amf_ue_id_to_ran_ue_id s) a = None \<or>
               fmlookup (amf_ue_id_to_ran_ue_id s) a = Some r"
  proof (cases "contains_amf_ue_id s a")
    case False
    with inv show ?thesis by (simp add: not_contains_amf_ue_id)
  next
    case True
    with h have "at_amf_ue_id s a = Inr ue" using ue by (simp add: at_ran_ue_id_def)
    then obtain r' where r': "fmlookup (amf_ue_id_to_ran_ue_id s) a = Some r'"
      "fmlookup (ues s) r' = Some ue" unfolding at_amf_ue_id_Inr by blast
    from D(1) [OF r'(2)] D(1) [OF ue] have "r' = r" by simp
    with r' show ?thesis by simp
  qed
  from inv upd fresh show c: "three_way_consistent P s'" by (rule update_amf_ue_id_preserves)
  note D' = three_way_consistentD [OF c]
  from update_amf_ue_id_sets [OF upd] obtain ue' where ue': "fmlookup (ues s') r = Some ue'"
    and a': "amf_ue_id (ue_ids ue') = a" by blast
  from D'(3) [OF ue'] a a' have m: "fmlookup (amf_ue_id_to_ran_ue_id s') a = Some r" by simp
  with ue' show "contains_amf_ue_id s' a"
    by (simp add: contains_amf_ue_id_def fmdomI)
  from m show "at_amf_ue_id s' a = at_ran_ue_id s' r" by (simp add: at_amf_ue_id_def)
  show "\<forall>ue. at_ran_ue_id s r = Inr ue \<and> amf_ue_id (ue_ids ue) \<noteq> a \<longrightarrow>
             \<not> contains_amf_ue_id s' (amf_ue_id (ue_ids ue))"
  proof (intro allI impI)
    fix ue0 assume "at_ran_ue_id s r = Inr ue0 \<and> amf_ue_id (ue_ids ue0) \<noteq> a"
    with ue have ne: "amf_ue_id (ue_ids ue) \<noteq> a" and e: "ue0 = ue" by (simp_all add: at_ran_ue_id_def)
    from update_amf_ue_id_old_gone [OF inv upd ue ne] e
    show "\<not> contains_amf_ue_id s' (amf_ue_id (ue_ids ue0))" by (simp add: contains_amf_ue_id_def)
  qed
next
  note D = three_way_consistentD [OF inv]
  assume h: "update_ue_index P new old s = Inr s'' \<and> \<not> contains_ue_index s new"
  then have upd: "update_ue_index P new old s = Inr s''" by simp
  from h inv have fresh: "fmlookup (ue_index_to_ran_ue_id s) new = None"
    by (simp add: not_contains_ue_index)
  from inv upd fresh show c: "three_way_consistent P s''" by (rule update_ue_index_preserves)
  note D' = three_way_consistentD [OF c]
  have old: "fmlookup (ue_index_to_ran_ue_id s'') old = None"
    using upd by (rule update_ue_index_old_gone)
  then show "\<not> contains_ue_index s'' old" by (simp add: contains_ue_index_def)
  have new: "\<exists>r0. fmlookup (ue_index_to_ran_ue_id s) old = Some r0 \<and>
               fmlookup (ue_index_to_ran_ue_id s'') new = Some r0 \<and> r0 |\<in>| fmdom (ues s'')"
  proof (rule update_ue_index_Inr [OF upd])
    fix r0 ue
    assume o: "fmlookup (ue_index_to_ran_ue_id s) old = Some r0"
      and s'': "s'' = s\<lparr>ues := fmupd r0 (ue\<lparr>ue_ids := (ue_ids ue)\<lparr>ue_index := new\<rparr>,
              logger_prefix := \<lparr>ue_index = new, ran_ue_id = r0, amf_ue_id = amf_ue_id (ue_ids ue)\<rparr>\<rparr>) (ues s),
            ue_index_to_ran_ue_id := erase old (emplace new r0 (ue_index_to_ran_ue_id s))\<rparr>"
    from o fresh have "new \<noteq> old" by auto
    with o fresh show ?thesis by (simp add: s'' fmlookup_erase fmlookup_emplace)
  qed
  then show "contains_ue_index s'' new" by (auto simp: contains_ue_index_def)
  from new show "\<forall>r0. fmlookup (ue_index_to_ran_ue_id s) old = Some r0 \<longrightarrow>
             at_ue_index s'' new = at_ran_ue_id s'' r0"
    by (auto simp: at_ue_index_def)
qed

theorem identity_transitions_keep_consistency_witness:
  "three_way_consistent example_types two_ues \<and>
   update_amf_ue_id example_types 1 9 two_ues =
     Inr (projr (update_amf_ue_id example_types 1 9 two_ues)) \<and>
   \<not> contains_amf_ue_id two_ues 9 \<and>
   three_way_consistent example_types (projr (update_amf_ue_id example_types 1 9 two_ues)) \<and>
   update_amf_ue_id example_types 0 9 two_ues =
     Inr (projr (update_amf_ue_id example_types 0 9 two_ues)) \<and>
   at_ran_ue_id two_ues 0 = Inr (projr (at_ran_ue_id two_ues 0)) \<and>
   amf_ue_id (ue_ids (projr (at_ran_ue_id two_ues 0))) = 7 \<and>
   \<not> contains_amf_ue_id (projr (update_amf_ue_id example_types 0 9 two_ues)) 7 \<and>
   update_ue_index example_types 5 0 two_ues =
     Inr (projr (update_ue_index example_types 5 0 two_ues)) \<and>
   \<not> contains_ue_index two_ues 5 \<and>
   three_way_consistent example_types (projr (update_ue_index example_types 5 0 two_ues)) \<and>
   \<not> contains_ue_index (projr (update_ue_index example_types 5 0 two_ues)) 0"
proof -
  have 1: "three_way_consistent example_types two_ues" by (simp add: store_eval)
  have 2: "update_amf_ue_id example_types 1 9 two_ues =
     Inr (projr (update_amf_ue_id example_types 1 9 two_ues))" by (simp add: store_eval)
  have 3: "\<not> contains_amf_ue_id two_ues 9" by (simp add: store_eval)
  have 4: "update_amf_ue_id example_types 0 9 two_ues =
     Inr (projr (update_amf_ue_id example_types 0 9 two_ues))" by (simp add: store_eval)
  have 5: "at_ran_ue_id two_ues 0 = Inr (projr (at_ran_ue_id two_ues 0))"
    "amf_ue_id (ue_ids (projr (at_ran_ue_id two_ues 0))) = 7" by (simp_all add: store_eval)
  have 6: "update_ue_index example_types 5 0 two_ues =
     Inr (projr (update_ue_index example_types 5 0 two_ues))" by (simp add: store_eval)
  have 7: "\<not> contains_ue_index two_ues 5" by (simp add: store_eval)
  have 8: "(7 :: 64 word) \<noteq> 9" by simp
  note A = identity_transitions_keep_consistency [OF 1, of 1 9
      "projr (update_amf_ue_id example_types 1 9 two_ues)" 5 0
      "projr (update_ue_index example_types 5 0 two_ues)"]
  note B = identity_transitions_keep_consistency [OF 1, of 0 9
      "projr (update_amf_ue_id example_types 0 9 two_ues)" 5 0
      "projr (update_ue_index example_types 5 0 two_ues)"]
  from A B 1 2 3 4 5 6 7 8 show ?thesis by metis
qed

subsection \<open>Admission, resolution, release\<close>




subsection \<open>Admission at capacity\<close>

text \<open>
  Claim C8. When the store holds \<open>MAX_NOF_RAN_UES\<close> devices, counted as the code counts
  them (the entries of \<open>ue_index_to_ran_ue_id\<close>) or as the contexts of a consistent
  store (\<open>size\<close>), \<open>allocate_ran_ue_id\<close> returns the invalid RAN-UE-ID and the
  store it leaves is the store it was given: contexts, the three maps and the counter
  are unchanged.
\<close>

theorem allocate_ran_ue_id_at_capacity:
  fixes s :: "('u, 'r::len, 'a, 't) ngap_ue_context_list"
  assumes "fcard (fmdom (ue_index_to_ran_ue_id s)) = MAX_NOF_RAN_UES P \<or>
           (three_way_consistent P s \<and> size_ues s = MAX_NOF_RAN_UES P)"
  shows "allocate_ran_ue_id P s = Some (ran_ue_id_invalid P, s)"
proof -
  from assms have "fcard (fmdom (ue_index_to_ran_ue_id s)) = MAX_NOF_RAN_UES P"
    using consistent_sizes [of P s] by auto
  then show ?thesis by (rule allocate_full)
qed

theorem allocate_ran_ue_id_at_capacity_witness:
  "three_way_consistent small_types full_ues \<and> size_ues full_ues = MAX_NOF_RAN_UES small_types \<and>
   allocate_ran_ue_id small_types full_ues = Some (ran_ue_id_invalid small_types, full_ues)"
proof -
  have 1: "three_way_consistent small_types full_ues" by (simp add: store_eval)
  have 2: "size_ues full_ues = MAX_NOF_RAN_UES small_types" by (simp add: store_eval)
  from 1 2 have "fcard (fmdom (ue_index_to_ran_ue_id full_ues)) = MAX_NOF_RAN_UES small_types \<or>
           (three_way_consistent small_types full_ues \<and> size_ues full_ues = MAX_NOF_RAN_UES small_types)"
    by blast
  from allocate_ran_ue_id_at_capacity [OF this] 1 2 show ?thesis by blast
qed

subsection \<open>Idempotence of \<open>update_amf_ue_id\<close>\<close>

text \<open>
  Claim C9. \<open>update_amf_ue_id\<close> is idempotent: when a call with a RAN-UE-ID and an
  AMF-UE-ID has succeeded, a second call with the same two identifiers succeeds as well
  and returns the store exactly as the first call left it (contexts, logger prefixes,
  the three maps and the counter).
\<close>

theorem update_amf_ue_id_idempotent:
  assumes upd: "update_amf_ue_id P r a s = Inr s'"
  shows "update_amf_ue_id P r a s' = Inr s'"
proof -
  from upd have a: "a \<noteq> amf_ue_id_invalid P" and rv: "r \<noteq> ran_ue_id_invalid P"
    by (auto elim: update_amf_ue_id_Inr)
  from update_amf_ue_id_sets [OF upd] obtain ue'
    where "fmlookup (ues s') r = Some ue'" "amf_ue_id (ue_ids ue') = a" by blast
  with a rv show ?thesis by (simp add: update_amf_ue_id_def)
qed

theorem update_amf_ue_id_idempotent_witness:
  "update_amf_ue_id example_types 1 9 two_ues =
     Inr (projr (update_amf_ue_id example_types 1 9 two_ues)) \<and>
   update_amf_ue_id example_types 1 9 (projr (update_amf_ue_id example_types 1 9 two_ues)) =
     Inr (projr (update_amf_ue_id example_types 1 9 two_ues)) \<and>
   amf_ue_id_to_ran_ue_id (projr (update_amf_ue_id example_types 1 9 two_ues)) \<noteq>
     amf_ue_id_to_ran_ue_id two_ues"
proof -
  have h: "update_amf_ue_id example_types 1 9 two_ues =
     Inr (projr (update_amf_ue_id example_types 1 9 two_ues))"
    by (simp add: store_eval)
  have d: "fmlookup (amf_ue_id_to_ran_ue_id (projr (update_amf_ue_id example_types 1 9 two_ues))) 9 \<noteq>
     fmlookup (amf_ue_id_to_ran_ue_id two_ues) 9"
    by (simp add: store_eval)
  then have "amf_ue_id_to_ran_ue_id (projr (update_amf_ue_id example_types 1 9 two_ues)) \<noteq>
     amf_ue_id_to_ran_ue_id two_ues" by auto
  with h update_amf_ue_id_idempotent [OF h] show ?thesis by blast
qed

subsection \<open>Fresh RAN-UE-IDs\<close>

text \<open>
  Claim C10. Whenever \<open>allocate_ran_ue_id\<close> returns an identifier other than the invalid
  one, no UE index of the store is mapped to it (and in a consistent store no context is
  kept under it); the store returned differs from the store given in the counter
  \<open>next_ran_ue_id\<close> only; and the counter is the minimum when the identifier returned is
  the maximum, and its successor otherwise. When the counter was inside the range before
  the call, the identifier returned and the new counter are inside it too, and the
  successor is taken without wrap-around of the machine integer.
\<close>

theorem allocate_ran_ue_id_fresh:
  fixes s :: "('u, 'r::len, 'a, 't) ngap_ue_context_list"
  assumes alloc: "allocate_ran_ue_id P s = Some (ret, s')" and valid: "ret \<noteq> ran_ue_id_invalid P"
  shows "(\<forall>u. fmlookup (ue_index_to_ran_ue_id s) u \<noteq> Some ret) \<and>
         (three_way_consistent P s \<longrightarrow> \<not> contains_ran_ue_id s ret) \<and>
         s' = s\<lparr>next_ran_ue_id := next_ran_ue_id s'\<rparr> \<and>
         next_ran_ue_id s' = (if ret = ran_ue_id_max P then ran_ue_id_min P else ret + 1) \<and>
         (ran_ue_id_min P \<le> next_ran_ue_id s \<and> next_ran_ue_id s \<le> ran_ue_id_max P \<longrightarrow>
            ran_ue_id_min P \<le> ret \<and> ret \<le> ran_ue_id_max P \<and>
            ran_ue_id_min P \<le> next_ran_ue_id s' \<and> next_ran_ue_id s' \<le> ran_ue_id_max P \<and>
            (ret \<noteq> ran_ue_id_max P \<longrightarrow> unat (next_ran_ue_id s') = unat ret + 1))"
proof -
  from alloc valid have f: "find_unused_ran_ue_id P s = Some (ret, s')"
    by (auto simp: allocate_ran_ue_id_def split: if_splits)
  note fs = find_unused_ran_ue_id_Some [OF f, unfolded fst_conv snd_conv]
  have nu: "\<not> ran_ue_id_in_use s ret"
    by (rule fs [THEN conjunct1])
  have s': "s' = s\<lparr>next_ran_ue_id := if ret = ran_ue_id_max P then ran_ue_id_min P else ret + 1\<rparr>"
    by (rule fs [THEN conjunct2])
  from nu have 1: "\<forall>u. fmlookup (ue_index_to_ran_ue_id s) u \<noteq> Some ret"
    by (simp add: ran_ue_id_in_use_iff)
  have 2: "\<not> contains_ran_ue_id s ret" if inv: "three_way_consistent P s"
  proof
    assume "contains_ran_ue_id s ret"
    then obtain ue where "fmlookup (ues s) ret = Some ue"
      by (auto simp: contains_ran_ue_id_def fmlookup_dom_iff)
    from three_way_consistentD(2) [OF inv this] 1 show False by simp
  qed
  have n: "next_ran_ue_id s' = (if ret = ran_ue_id_max P then ran_ue_id_min P else ret + 1)"
    by (subst s') simp
  have 3: "s' = s\<lparr>next_ran_ue_id := next_ran_ue_id s'\<rparr>"
    unfolding n by (rule s')
  have 5: "ran_ue_id_min P \<le> ret \<and> ret \<le> ran_ue_id_max P \<and>
            ran_ue_id_min P \<le> next_ran_ue_id s' \<and> next_ran_ue_id s' \<le> ran_ue_id_max P \<and>
            (ret \<noteq> ran_ue_id_max P \<longrightarrow> unat (next_ran_ue_id s') = unat ret + 1)"
    if r: "ran_ue_id_min P \<le> next_ran_ue_id s \<and> next_ran_ue_id s \<le> ran_ue_id_max P"
  proof -
    from find_unused_ran_ue_id_range [OF f] r
    have lo: "ran_ue_id_min P \<le> ret" and hi: "ret \<le> ran_ue_id_max P" by simp_all
    let ?t = "s\<lparr>next_ran_ue_id := ret\<rparr>"
    have t: "ran_ue_id_min P \<le> next_ran_ue_id ?t" "next_ran_ue_id ?t \<le> ran_ue_id_max P"
      using lo hi by simp_all
    have e: "next_ran_ue_id (increase_next_ran_ue_id P ?t) = next_ran_ue_id s'"
      by (simp add: increase_next_ran_ue_id_fields n)
    from increase_next_ran_ue_id_range [OF t] lo hi show ?thesis
      unfolding e by simp
  qed
  from 1 2 3 n 5 show ?thesis by blast
qed

theorem allocate_ran_ue_id_fresh_witness:
  "allocate_ran_ue_id small_types wrapping_ues = Some (1, wrapping_ues\<lparr>next_ran_ue_id := 2\<rparr>) \<and>
   (1 :: 64 word) \<noteq> ran_ue_id_invalid small_types \<and>
   three_way_consistent small_types wrapping_ues \<and>
   ran_ue_id_min small_types \<le> next_ran_ue_id wrapping_ues \<and>
   next_ran_ue_id wrapping_ues \<le> ran_ue_id_max small_types \<and>
   next_ran_ue_id wrapping_ues = ran_ue_id_max small_types \<and>
   \<not> contains_ran_ue_id wrapping_ues 1 \<and>
   (\<forall>u. fmlookup (ue_index_to_ran_ue_id wrapping_ues) u \<noteq> Some 1)"
proof -
  have a: "allocate_ran_ue_id small_types wrapping_ues = Some (1, wrapping_ues\<lparr>next_ran_ue_id := 2\<rparr>)"
    apply (simp add: allocate_ran_ue_id_def store_eval)
    apply (subst find_unused_ran_ue_id.simps)
    apply (simp add: store_eval)
    apply (subst find_unused_ran_ue_id.simps)
    apply (simp add: store_eval)
    apply (subst find_unused_ran_ue_id.simps)
    apply (simp add: store_eval)
    done
  have v: "(1 :: 64 word) \<noteq> ran_ue_id_invalid small_types" by (simp add: store_eval)
  have c: "three_way_consistent small_types wrapping_ues" by (simp add: store_eval)
  have r: "ran_ue_id_min small_types \<le> next_ran_ue_id wrapping_ues"
    "next_ran_ue_id wrapping_ues \<le> ran_ue_id_max small_types"
    "next_ran_ue_id wrapping_ues = ran_ue_id_max small_types"
    by (simp_all add: store_eval)
  from allocate_ran_ue_id_fresh [OF a v] a v c r show ?thesis by blast
qed

section \<open>Properties of the scheduler model\<close>

subsection \<open>The multiplexer\<close>

lemma pack_ces_Some:
  "pack_ces es b = Some (p, r) \<Longrightarrow>
     p = map (\<lambda>e. \<lparr>content = CE (ce_tag e), sched_bytes = ce_bytes e\<rparr>) es \<and>
     r + sum_list (map ce_bytes es) = b"
proof (induction es arbitrary: b p r)
  case Nil
  then show ?case by simp
next
  case (Cons e es)
  from Cons.prems obtain p' where le: "ce_bytes e \<le> b"
    and rest: "pack_ces es (b - ce_bytes e) = Some (p', r)"
    and p: "p = \<lparr>content = CE (ce_tag e), sched_bytes = ce_bytes e\<rparr> # p'"
    by (auto split: if_splits option.splits)
  from Cons.IH [OF rest] have "p' = map (\<lambda>e. \<lparr>content = CE (ce_tag e), sched_bytes = ce_bytes e\<rparr>) es"
    and "r + sum_list (map ce_bytes es) = b - ce_bytes e" by simp_all
  with le p show ?case by simp
qed

lemma pack_ces_enough:
  "sum_list (map ce_bytes es) \<le> b \<Longrightarrow>
     pack_ces es b = Some (map (\<lambda>e. \<lparr>content = CE (ce_tag e), sched_bytes = ce_bytes e\<rparr>) es,
                           b - sum_list (map ce_bytes es))"
  by (induction es arbitrary: b) auto


lemma pack_lcs_budget: "sum_list (map sched_bytes (pack_lcs cs b)) \<le> b"
  by (induction cs b rule: pack_lcs.induct) auto


lemma unsegmented_bytes_0:
  "unsegmented_bytes cs = 0 \<Longrightarrow> c \<in> set cs \<Longrightarrow> \<not> segmentable c \<Longrightarrow> pending_bytes c = 0"
  by (induction cs) (auto split: if_splits)

lemma pack_lcs_unsegmented:
  "unsegmented_bytes cs \<le> b \<Longrightarrow> c \<in> set cs \<Longrightarrow> \<not> segmentable c \<Longrightarrow> 0 < pending_bytes c \<Longrightarrow>
     \<lparr>content = LC (lcid c), sched_bytes = pending_bytes c\<rparr> \<in> set (pack_lcs cs b)"
proof (induction cs arbitrary: b)
  case Nil then show ?case by simp
next
  case (Cons x xs)
  have pos: "0 < unsegmented_bytes (x # xs)"
  proof (rule ccontr)
    assume "\<not> 0 < unsegmented_bytes (x # xs)"
    then have "unsegmented_bytes (x # xs) = 0" by simp
    from unsegmented_bytes_0 [OF this Cons.prems(2,3)] Cons.prems(4) show False by simp
  qed
  have u: "unsegmented_bytes (x # xs) = pending_bytes x + unsegmented_bytes xs"
  proof (cases "0 < unsegmented_bytes xs \<or> (\<not> segmentable x \<and> 0 < pending_bytes x)")
    case True
    then show ?thesis by simp
  next
    case False
    then have "unsegmented_bytes (x # xs) = 0" by simp
    with pos show ?thesis by simp
  qed
  from Cons.prems(1) pos have b0: "0 < b" by linarith
  from Cons.prems(1) have b1: "pending_bytes x + unsegmented_bytes xs \<le> b" unfolding u .
  from b0 b1 have b: "0 < b" "pending_bytes x \<le> b" "unsegmented_bytes xs \<le> b - pending_bytes x"
    by linarith+
  show ?case
  proof (cases "c = x")
    case True
    with Cons.prems b show ?thesis by (simp add: min_def)
  next
    case False
    with Cons.prems have "c \<in> set xs" by simp
    have m: "min (pending_bytes x) b = pending_bytes x" using b by simp
    show ?thesis
    proof (cases "pending_bytes x = 0")
      case True
      with b have "unsegmented_bytes xs \<le> b" by simp
      from Cons.IH [OF this \<open>c \<in> set xs\<close> Cons.prems(3,4)] True b show ?thesis by simp
    next
      case False
      from Cons.IH [OF b(3) \<open>c \<in> set xs\<close> Cons.prems(3,4)] False b show ?thesis by (simp add: m)
    qed
  qed
qed


lemma run_slot_Some:
  assumes "run_slot i d = (d', Some al)"
  obtains a b where "addressing_of (phase (drain (events i) d)) = Some a" "granted i = Some b"
    "allocate_device b (capacity i) (drain (events i) d) = Inr (tb al)" "addressing al = a" "tb al \<noteq> []"
    "d' = consume (tb al) (drain (events i) d)"
  using assms unfolding run_slot_def Let_def
  by (auto split: option.splits sum.splits if_splits)

lemma allocate_device_Inr:
  assumes "allocate_device b cap d = Inr plan"
  shows "pack d (max b (required_bytes d)) = Inr plan" "max b (required_bytes d) \<le> cap"
  using assms unfolding allocate_device_def Let_def by (auto split: if_splits)

lemma pack_Inr:
  assumes "pack d b = Inr plan"
  shows "sum_list (map ce_bytes (pending_ces d)) \<le> b"
    and "plan = map (\<lambda>e. \<lparr>content = CE (ce_tag e), sched_bytes = ce_bytes e\<rparr>) (pending_ces d) @
           pack_lcs (sort_key priority (channels d)) (b - sum_list (map ce_bytes (pending_ces d)))"
proof -
  from assms obtain p r where pr: "pack_ces (pending_ces d) b = Some (p, r)"
    and plan: "plan = p @ pack_lcs (sort_key priority (channels d)) r"
    unfolding pack_def by (auto split: option.splits)
  from pack_ces_Some [OF pr] have p: "p = map (\<lambda>e. \<lparr>content = CE (ce_tag e), sched_bytes = ce_bytes e\<rparr>) (pending_ces d)"
    and r: "r + sum_list (map ce_bytes (pending_ces d)) = b" by simp_all
  from r show "sum_list (map ce_bytes (pending_ces d)) \<le> b" by linarith
  from r have "r = b - sum_list (map ce_bytes (pending_ces d))" by linarith
  with plan p show "plan = map (\<lambda>e. \<lparr>content = CE (ce_tag e), sched_bytes = ce_bytes e\<rparr>) (pending_ces d) @
           pack_lcs (sort_key priority (channels d)) (b - sum_list (map ce_bytes (pending_ces d)))" by simp
qed

lemmas slot_eval =
  detected_ue_def msg4_slot_def srb1_slot_def run_slot_def drain_def allocate_device_def
  required_bytes_def pack_def consume_def srb1_msg4_slot_def tight_slot_def Let_def

subsection \<open>Control element first\<close>



subsection \<open>No truncation without segmentation\<close>

text \<open>
  Claim C3. Whenever a device gets an allocation, every logical channel without
  segmentation support that has pending bytes in that slot appears in the transport
  block with a scheduled byte count of at least its full pending payload.
\<close>

theorem unsegmented_payload_scheduled_in_full:
  assumes run: "run_slot i d = (d', Some al)"
    and c: "c \<in> set (channels (drain (events i) d))"
    and ns: "\<not> segmentable c" and pos: "0 < pending_bytes c"
  shows "\<exists>x \<in> set (tb al). content x = LC (lcid c) \<and> pending_bytes c \<le> sched_bytes x"
proof (rule run_slot_Some [OF run])
  fix a b
  let ?d = "drain (events i) d"
  assume al: "allocate_device b (capacity i) ?d = Inr (tb al)"
  let ?b = "max b (required_bytes ?d)"
  note p = pack_Inr [OF allocate_device_Inr(1) [OF al]]
  have "unsegmented_bytes (sort_key priority (channels ?d)) \<le> ?b - sum_list (map ce_bytes (pending_ces ?d))"
    by (simp add: required_bytes_def)
  moreover from c have "c \<in> set (sort_key priority (channels ?d))" by simp
  ultimately have "\<lparr>content = LC (lcid c), sched_bytes = pending_bytes c\<rparr>
      \<in> set (pack_lcs (sort_key priority (channels ?d)) (?b - sum_list (map ce_bytes (pending_ces ?d))))"
    using ns pos by (rule pack_lcs_unsegmented)
  then have "\<lparr>content = LC (lcid c), sched_bytes = pending_bytes c\<rparr> \<in> set (tb al)"
    by (subst p(2)) simp
  then show ?thesis by force
qed

lemma advance_unconfirmed:
  "unconfirmed d \<Longrightarrow> ev \<noteq> Identity_confirmed \<Longrightarrow> unconfirmed (advance ev d)"
  by (cases ev) (auto simp: unconfirmed_def)

lemma drain_unconfirmed:
  "unconfirmed d \<Longrightarrow> Identity_confirmed \<notin> set es \<Longrightarrow> unconfirmed (drain es d)"
  unfolding drain_def
  by (induction es arbitrary: d) (auto simp: advance_unconfirmed)

lemma consume_phase: "phase (consume plan d) = phase d"
  by (simp add: consume_def)

lemma run_slot_unconfirmed:
  assumes "unconfirmed d" "Identity_confirmed \<notin> set (events i)"
  shows "unconfirmed (fst (run_slot i d))"
    and "snd (run_slot i d) = Some al \<Longrightarrow> addressing al = Temporary_address"
proof -
  from assms have u: "unconfirmed (drain (events i) d)" by (rule drain_unconfirmed)
  then show "unconfirmed (fst (run_slot i d))"
    unfolding run_slot_def Let_def
    by (auto simp: unconfirmed_def consume_phase split: option.splits sum.splits)
  assume "snd (run_slot i d) = Some al"
  then have "run_slot i d = (fst (run_slot i d), Some al)" by (metis prod.collapse)
  then show "addressing al = Temporary_address"
  proof (rule run_slot_Some)
    fix a
    assume "addressing_of (phase (drain (events i) d)) = Some a" "addressing al = a"
    with u show ?thesis by (cases "phase (drain (events i) d)") (auto simp: unconfirmed_def)
  qed
qed

subsection \<open>Temporary address until confirmation\<close>

text \<open>
  Claim C5. For a device that is detected or awaiting resolution, and over any number of
  slots in which no identity confirmation of the upper layer is drained, whatever else
  arrives and whatever was sent before, every allocation made to the device is addressed
  with the temporary address; the stable address is never used.
\<close>

theorem temporary_address_until_confirmation:
  assumes "phase d = DETECTED \<or> phase d = AWAITING_RESOLUTION"
    and "\<forall>i \<in> set slots. Identity_confirmed \<notin> set (events i)"
  shows "\<forall>al. Some al \<in> set (run_slots slots d) \<longrightarrow> addressing al = Temporary_address"
proof -
  from assms(1) have "unconfirmed d" by (auto simp: unconfirmed_def)
  then show ?thesis using assms(2)
  proof (induction slots arbitrary: d)
    case Nil
    then show ?case by simp
  next
    case (Cons i slots)
    from Cons.prems have e: "Identity_confirmed \<notin> set (events i)" by simp
    from run_slot_unconfirmed [OF Cons.prems(1) e] Cons.IH [of "fst (run_slot i d)"] Cons.prems(2)
    show ?case by auto
  qed
qed



theorem unsegmented_payload_scheduled_in_full_witness:
  "run_slot msg4_slot detected_ue =
     (fst (run_slot msg4_slot detected_ue), Some (the (snd (run_slot msg4_slot detected_ue)))) \<and>
   \<lparr>lcid = 0, priority = 0, segmentable = False, pending_bytes = 128\<rparr>
     \<in> set (channels (drain (events msg4_slot) detected_ue)) \<and>
   granted msg4_slot = Some 20 \<and>
   (\<exists>x \<in> set (tb (the (snd (run_slot msg4_slot detected_ue)))).
      content x = LC 0 \<and> 128 \<le> sched_bytes x)"
proof -
  let ?c = "\<lparr>lcid = 0, priority = 0, segmentable = False, pending_bytes = 128\<rparr>"
  have r: "run_slot msg4_slot detected_ue =
     (fst (run_slot msg4_slot detected_ue), Some (the (snd (run_slot msg4_slot detected_ue))))"
    by (simp add: slot_eval)
  have c: "?c \<in> set (channels (drain (events msg4_slot) detected_ue))"
    by (simp add: slot_eval)
  have g: "granted msg4_slot = Some 20" by (simp add: msg4_slot_def)
  have n: "\<not> segmentable ?c" "0 < pending_bytes ?c" by simp_all
  from unsegmented_payload_scheduled_in_full [OF r c n]
  have "\<exists>x \<in> set (tb (the (snd (run_slot msg4_slot detected_ue)))).
      content x = LC 0 \<and> 128 \<le> sched_bytes x" by simp
  with r c g show ?thesis by blast
qed

theorem temporary_address_until_confirmation_witness:
  "phase detected_ue = DETECTED \<and>
   Identity_confirmed \<notin> set (events msg4_slot) \<and>
   Identity_confirmed \<notin> set (events srb1_slot) \<and>
   map (map_option tb) (run_slots [msg4_slot, srb1_slot] detected_ue) =
     [Some [\<lparr>content = CE Identity_confirmation, sched_bytes = 7\<rparr>,
            \<lparr>content = LC 0, sched_bytes = 128\<rparr>],
      Some [\<lparr>content = LC 1, sched_bytes = 50\<rparr>]] \<and>
   addressing (the (run_slots [msg4_slot, srb1_slot] detected_ue ! 0)) = Temporary_address \<and>
   addressing (the (run_slots [msg4_slot, srb1_slot] detected_ue ! 1)) = Temporary_address"
proof -
  let ?r = "run_slots [msg4_slot, srb1_slot] detected_ue"
  have p: "phase detected_ue = DETECTED" by (simp add: detected_ue_def)
  then have p': "phase detected_ue = DETECTED \<or> phase detected_ue = AWAITING_RESOLUTION" by simp
  have e1: "Identity_confirmed \<notin> set (events msg4_slot)" by (simp add: msg4_slot_def)
  have e2: "Identity_confirmed \<notin> set (events srb1_slot)" by (simp add: srb1_slot_def)
  from e1 e2 have e: "\<forall>i \<in> set [msg4_slot, srb1_slot]. Identity_confirmed \<notin> set (events i)"
    by simp
  have r: "map (map_option tb) ?r =
     [Some [\<lparr>content = CE Identity_confirmation, sched_bytes = 7\<rparr>,
            \<lparr>content = LC 0, sched_bytes = 128\<rparr>],
      Some [\<lparr>content = LC 1, sched_bytes = 50\<rparr>]]"
    by (simp add: slot_eval)
  then have len: "length ?r = 2" by (metis length_map length_Cons list.size(3) numeral_2_eq_2)
  from r have "map_option tb (?r ! 0) \<noteq> None" "map_option tb (?r ! 1) \<noteq> None"
    using len by (metis nth_map nth_Cons_0 option.distinct(1) zero_less_numeral,
                  metis nth_map nth_Cons_0 nth_Cons_Suc One_nat_def option.distinct(1) one_less_numeral_iff semiring_norm(76))
  then have s: "?r ! 0 = Some (the (?r ! 0))" "?r ! 1 = Some (the (?r ! 1))" by auto
  from len have "?r ! 0 \<in> set ?r" "?r ! 1 \<in> set ?r" by simp_all
  with s have m: "Some (the (?r ! 0)) \<in> set ?r" "Some (the (?r ! 1)) \<in> set ?r" by simp_all
  note T = temporary_address_until_confirmation [OF p' e, rule_format]
  from T [OF m(1)] T [OF m(2)] p e1 e2 r show ?thesis by blast
qed

end
